theory Spec2Isabelle
  imports Main "HOL-Library.Word" "HOL-Library.AList"
begin

unbundle bit_operations_syntax

section \<open>Bytes, fixed arrays and slices\<close>

type_synonym byte = "8 word"
type_synonym bytes = "byte list"
type_synonym uint64 = "64 word"
type_synonym int64 = "64 word"

text \<open>Go's \<^verbatim>\<open>[32]byte\<close>: the cipher key of \<^verbatim>\<open>Serve\<close> and a SHA-256 digest.\<close>

typedef byte32 = "{bs :: byte list. length bs = 32}"
  by (rule exI [of _ "replicate 32 0"]) simp

text \<open>
  \<^verbatim>\<open>crypto/sha256\<close> is the Go standard library and \<^verbatim>\<open>github.com/bobg/merkle\<close> an external
  module; neither is part of the repository. The embedding takes the digest function
  (\<open>H\<close>, any function from byte strings to 32 bytes) and the root of a Merkle tree as a
  function of the strings added to it (\<open>mroot\<close>) as parameters, so every theorem holds
  for whatever these libraries compute.
\<close>

type_synonym sha256 = "bytes \<Rightarrow> byte32"
type_synonym merkle_root = "bytes list \<Rightarrow> bytes"

text \<open>\<^verbatim>\<open>buf[a:b]\<close> and a write of \<open>src\<close> into \<open>buf\<close> from offset \<open>off\<close> on.\<close>

definition slice :: "nat \<Rightarrow> nat \<Rightarrow> bytes \<Rightarrow> bytes" where
  "slice a b buf = take (b - a) (drop a buf)"

definition blit :: "nat \<Rightarrow> bytes \<Rightarrow> bytes \<Rightarrow> bytes" where
  "blit off src buf = take off buf @ src @ drop (off + length src) buf"

section \<open>encoding/binary: varints\<close>

definition MaxVarintLen64 :: nat where
  "MaxVarintLen64 = 10"

text \<open>
  \<^verbatim>\<open>binary.PutUvarint(buf, x)\<close> writes these bytes to the front of \<open>buf\<close> and returns
  their number:
  \<^verbatim>\<open>for x >= 0x80 { buf[i] = byte(x) | 0x80; x >>= 7; i++ }; buf[i] = byte(x)\<close>
\<close>

function PutUvarint :: "uint64 \<Rightarrow> bytes" where
  "PutUvarint x =
     (if 0x80 \<le> x then (ucast x OR 0x80) # PutUvarint (drop_bit 7 x) else [ucast x])"
  by pat_completeness auto
termination
proof (relation "measure unat")
  show "wf (measure unat)" by simp
next
  fix x :: uint64
  assume "0x80 \<le> x"
  then have "128 \<le> unat x" by (simp add: word_le_nat_alt)
  moreover have "unat (drop_bit 7 x) = unat x div 2 ^ 7"
    by (simp add: drop_bit_eq_div unat_div)
  ultimately have "unat (drop_bit 7 x) < unat x" by simp
  then show "(drop_bit 7 x, x) \<in> measure unat" by simp
qed

declare PutUvarint.simps [simp del]

section \<open>io.Reader, io.ReadFull and io.Writer\<close>

text \<open>
  A reader holds the bytes still to come (\<open>rdata\<close>) and a schedule of what its next
  \<^verbatim>\<open>Read\<close> calls do: \<open>Short k\<close> delivers at most \<open>k\<close> bytes (a short read, possibly of
  nothing), \<open>Broken\<close> returns an I/O error. Once the schedule is used up every call
  fills the buffer as far as the data goes. At the end of the data \<^verbatim>\<open>Read\<close> returns
  \<^verbatim>\<open>0, io.EOF\<close>, as an \<^verbatim>\<open>os.File\<close> does; a call returns bytes or an error, not both.
\<close>

datatype rstep = Short nat | Broken

record reader =
  rdata :: bytes
  rsched :: "rstep list"

datatype rerr = EOF | ErrUnexpectedEOF | ErrIO

fun Read :: "reader \<Rightarrow> nat \<Rightarrow> bytes \<times> rerr option \<times> reader" where
  "Read rd n =
     (case rsched rd of
        Broken # s \<Rightarrow> ([], Some ErrIO, rd\<lparr>rsched := s\<rparr>)
      | Short k # s \<Rightarrow>
          (if rdata rd = [] then ([], Some EOF, rd\<lparr>rsched := s\<rparr>)
           else (take (min k n) (rdata rd), None,
                 rd\<lparr>rdata := drop (min k n) (rdata rd), rsched := s\<rparr>))
      | [] \<Rightarrow>
          (if rdata rd = [] then ([], Some EOF, rd)
           else (take n (rdata rd), None, rd\<lparr>rdata := drop n (rdata rd)\<rparr>)))"

definition rsize :: "reader \<Rightarrow> nat" where
  "rsize rd = length (rdata rd) + length (rsched rd)"

text \<open>
  \<^verbatim>\<open>io.ReadAtLeast\<close> with \<open>min = len(buf)\<close>:
  \<^verbatim>\<open>for n < min && err == nil { nn, err = r.Read(buf[n:]); n += nn }\<close>.
  \<open>acc\<close> is \<open>buf[:n]\<close>, \<open>want\<close> is \<open>len(buf)\<close>.
\<close>

lemma Read_progress:
  assumes "Read rd n = (bs, None, rd')" and "0 < n"
  shows "rsize rd' < rsize rd"
  using assms
  by (cases "rdata rd") (auto simp: rsize_def split: list.splits rstep.splits if_splits)

function readLoop :: "reader \<Rightarrow> nat \<Rightarrow> bytes \<Rightarrow> bytes \<times> rerr option \<times> reader" where
  "readLoop rd want acc =
     (if length acc < want then
        (case Read rd (want - length acc) of
           (bs, None, rd') \<Rightarrow> readLoop rd' want (acc @ bs)
         | (bs, Some e, rd') \<Rightarrow> (acc @ bs, Some e, rd'))
      else (acc, None, rd))"
  by pat_completeness auto
termination
proof (relation "measure (\<lambda>(rd, want, acc). rsize rd)", goal_cases)
  case 1
  show ?case by simp
next
  case (2 rd want acc bs y e rd')
  then have "Read rd (want - length acc) = (bs, None, rd')" by simp
  with 2(1) have "rsize rd' < rsize rd" by (intro Read_progress) auto
  then show ?case by simp
qed

declare readLoop.simps [simp del]

text \<open>
  \<^verbatim>\<open>io.ReadFull(r, buf)\<close>: the bytes read, and \<^verbatim>\<open>nil\<close> when the buffer was filled,
  \<^verbatim>\<open>io.EOF\<close> when nothing was read at the end of the data, \<^verbatim>\<open>io.ErrUnexpectedEOF\<close>
  when the data ended after some bytes.
\<close>

definition ReadFull :: "reader \<Rightarrow> nat \<Rightarrow> bytes \<times> rerr option \<times> reader" where
  "ReadFull rd want =
     (case readLoop rd want [] of
        (bs, err, rd') \<Rightarrow>
          (bs,
           (if want \<le> length bs then None
            else if 0 < length bs \<and> err = Some EOF then Some ErrUnexpectedEOF
            else err),
           rd'))"

text \<open>
  A writer holds what was written (\<open>wout\<close>) and how many further \<^verbatim>\<open>Write\<close> calls
  succeed (\<open>wleft\<close>, \<open>None\<close>: all of them). A call that fails writes nothing.
\<close>

record writer =
  wout :: bytes
  wleft :: "nat option"

fun Write :: "writer \<Rightarrow> bytes \<Rightarrow> writer option" where
  "Write wr p =
     (case wleft wr of
        None \<Rightarrow> Some (wr\<lparr>wout := wout wr @ p\<rparr>)
      | Some 0 \<Rightarrow> None
      | Some (Suc k) \<Rightarrow> Some (wr\<lparr>wout := wout wr @ p, wleft := Some k\<rparr>))"

section \<open>The merkle module and the chunk cipher\<close>

text \<open>
  \<^verbatim>\<open>merkle.LeafHash(h, out, in)\<close> resets \<open>h\<close>, writes the byte 0 and then \<open>in\<close>, and
  returns \<^verbatim>\<open>h.Sum(out)\<close>: the digest of \<open>0x00 || in\<close> appended to \<open>out\<close> (the spec, 4.A:
  leaves are prefixed with the domain-separation byte 0x00).
\<close>

definition LeafHash :: "sha256 \<Rightarrow> bytes \<Rightarrow> bytes \<Rightarrow> bytes" where
  "LeafHash H out inp = out @ Rep_byte32 (H (0 # inp))"

text \<open>
  A \<^verbatim>\<open>merkle.Tree\<close> is the list of the strings added so far: \<^verbatim>\<open>Add\<close> hashes its
  argument at once (the caller may reuse the space), \<^verbatim>\<open>Root\<close> is \<open>mroot\<close> of the list.
\<close>

definition NewTree :: "bytes list" where
  "NewTree = []"

definition Add :: "bytes list \<Rightarrow> bytes \<Rightarrow> bytes list" where
  "Add t str = t @ [str]"

definition Root :: "merkle_root \<Rightarrow> bytes list \<Rightarrow> bytes" where
  "Root mroot t = mroot t"

text \<open>
  Modelled from the spec: \<^verbatim>\<open>crypt\<close> and \<^verbatim>\<open>ChunkSize\<close> are declared in a file of the
  package that is not among the sources. The spec, section 3: CHUNK_SIZE is a protocol
  constant, recommended 8 KiB; Keystream(key, i) is the SHA-256 hash of
  (key || varint(i)), repeated and truncated to produce chunk-i bytes; ciphertext is
  cleartext XOR keystream. \<^verbatim>\<open>crypt(key, chunk, index)\<close> overwrites \<open>chunk\<close> with the result.
\<close>

definition ChunkSize :: nat where
  "ChunkSize = 8192"

definition keystream :: "sha256 \<Rightarrow> byte32 \<Rightarrow> uint64 \<Rightarrow> nat \<Rightarrow> bytes" where
  "keystream H key i n =
     take n (concat (replicate (n div 32 + 1) (Rep_byte32 (H (Rep_byte32 key @ PutUvarint i)))))"

definition crypt :: "sha256 \<Rightarrow> byte32 \<Rightarrow> bytes \<Rightarrow> uint64 \<Rightarrow> bytes" where
  "crypt H key chunk i = map2 (XOR) chunk (keystream H key i (length chunk))"

section \<open>Serve (serve.go)\<close>

datatype serve_err =
  ReadingClearChunk uint64
  | WritingClearHash uint64
  | WritingCipherChunk uint64

text \<open>
  The variables of the loop: \<^verbatim>\<open>index\<close>, the streams \<^verbatim>\<open>w\<close> and \<^verbatim>\<open>r\<close>, the tree and the two
  arrays.
\<close>

record serve_state =
  s_index :: uint64
  s_w :: writer
  s_r :: reader
  cipherMT :: "bytes list"
  chunkWithPrefix :: bytes
  clearHashWithPrefix :: bytes

datatype serve_step = Break | Abort serve_err writer | Continue serve_state

text \<open>
  One pass through the body of the loop (serve.go, lines 25 to 49). The arrays are
  updated in place, in the order of the source: the clear hash is taken from
  \<^verbatim>\<open>chunkWithPrefix[:m+n]\<close> before \<^verbatim>\<open>crypt\<close> overwrites \<^verbatim>\<open>chunkWithPrefix[m:m+n]\<close>.
  \<^verbatim>\<open>LeafHash\<close> appends to \<^verbatim>\<open>clearHashWithPrefix[:m]\<close>, whose capacity holds the digest, so
  the digest lands in \<^verbatim>\<open>clearHashWithPrefix[m:m+32]\<close>.
\<close>

definition Serve_step :: "sha256 \<Rightarrow> byte32 \<Rightarrow> serve_state \<Rightarrow> serve_step" where
  "Serve_step H key st =
     (let m = length (PutUvarint (s_index st));
          cwp1 = blit 0 (PutUvarint (s_index st)) (chunkWithPrefix st);
          chp1 = blit 0 (PutUvarint (s_index st)) (clearHashWithPrefix st)
      in case ReadFull (s_r st) ChunkSize of
        (bs, err, rd') \<Rightarrow>
          (let n = length bs;
               cwp2 = blit m bs cwp1
           in if err = Some EOF then Break
              else if err \<noteq> None \<and> err \<noteq> Some ErrUnexpectedEOF
              then Abort (ReadingClearChunk (s_index st)) (s_w st)
              else
                (let chp2 = blit 0 (LeafHash H (slice 0 m chp1) (slice 0 (m + n) cwp2)) chp1
                 in case Write (s_w st) (slice m (m + 32) chp2) of
                   None \<Rightarrow> Abort (WritingClearHash (s_index st)) (s_w st)
                 | Some w1 \<Rightarrow>
                     (let cwp3 = blit m (crypt H key (slice m (m + n) cwp2) (s_index st)) cwp2
                      in case Write w1 (slice m (m + n) cwp3) of
                        None \<Rightarrow> Abort (WritingCipherChunk (s_index st)) w1
                      | Some w2 \<Rightarrow>
                          Continue
                            \<lparr>s_index = s_index st + 1, s_w = w2, s_r = rd',
                             cipherMT = Add (cipherMT st) (slice 0 (m + n) cwp3),
                             chunkWithPrefix = cwp3, clearHashWithPrefix = chp2\<rparr>))))"

lemma readLoop_shrinks:
  "readLoop rd want acc = (bs, e, rd') \<Longrightarrow>
     rsize rd' \<le> rsize rd \<and> length acc \<le> length bs \<and>
     (length acc < length bs \<longrightarrow> rsize rd' < rsize rd) \<and> e \<noteq> Some ErrUnexpectedEOF \<and>
     (e = None \<longrightarrow> want \<le> length bs)"
proof (induction rd want acc arbitrary: bs e rd' rule: readLoop.induct)
  case (1 rd want acc)
  show ?case
  proof (cases "length acc < want")
    case False
    with 1(2) show ?thesis by (simp add: readLoop.simps [of rd want acc])
  next
    case True
    obtain xs e1 rd1 where R: "Read rd (want - length acc) = (xs, e1, rd1)"
      by (cases "Read rd (want - length acc)") auto
    show ?thesis
    proof (cases e1)
      case None
      from True R None 1(2) have L: "readLoop rd1 want (acc @ xs) = (bs, e, rd')"
        by (simp add: readLoop.simps [of rd want acc])
      have "rsize rd1 < rsize rd"
        using R None True by (intro Read_progress [of rd "want - length acc" xs rd1]) auto
      moreover note 1(1) [OF True R [symmetric] _ None L]
      ultimately show ?thesis by auto
    next
      case (Some err)
      from True R Some 1(2) have E: "bs = acc @ xs" "e = Some err" "rd' = rd1"
        by (simp_all add: readLoop.simps [of rd want acc])
      from R Some have "err \<noteq> ErrUnexpectedEOF \<and> xs = [] \<and> rsize rd1 \<le> rsize rd"
        by (auto simp: rsize_def split: list.splits rstep.splits if_splits)
      with E show ?thesis by auto
    qed
  qed
qed

lemma ChunkSize_pos: "0 < ChunkSize"
  by (simp add: ChunkSize_def)

lemma ReadFull_progress:
  assumes "ReadFull rd want = (bs, err, rd')" and "0 < want"
    and "err = None \<or> err = Some ErrUnexpectedEOF"
  shows "rsize rd' < rsize rd"
proof -
  obtain xs e rd1 where L: "readLoop rd want [] = (xs, e, rd1)"
    by (cases "readLoop rd want []") auto
  from readLoop_shrinks [OF L]
  have S: "0 < length xs \<longrightarrow> rsize rd1 < rsize rd" "e \<noteq> Some ErrUnexpectedEOF"
    "e = None \<longrightarrow> want \<le> length xs"
    by auto
  from assms L S(2,3) have "rd' = rd1" and "0 < length xs"
    by (auto simp: ReadFull_def split: if_splits)
  with S show ?thesis by simp
qed

lemma Serve_step_progress:
  assumes "Serve_step H key st = Continue st'"
  shows "rsize (s_r st') < rsize (s_r st)"
proof -
  obtain bs err rd' where R: "ReadFull (s_r st) ChunkSize = (bs, err, rd')"
    by (cases "ReadFull (s_r st) ChunkSize") auto
  from assms R have "s_r st' = rd'" and "err = None \<or> err = Some ErrUnexpectedEOF"
    by (auto simp: Serve_step_def Let_def split: if_splits option.splits)
  with ReadFull_progress [OF R ChunkSize_pos] show ?thesis by simp
qed

text \<open>The loop, and \<^verbatim>\<open>return cipherMT.Root(), nil\<close> after it.\<close>

function Serve_loop ::
  "sha256 \<Rightarrow> merkle_root \<Rightarrow> byte32 \<Rightarrow> serve_state \<Rightarrow> writer \<times> (serve_err + bytes)" where
  "Serve_loop H mroot key st =
     (case Serve_step H key st of
        Break \<Rightarrow> (s_w st, Inr (Root mroot (cipherMT st)))
      | Abort e wr \<Rightarrow> (wr, Inl e)
      | Continue st' \<Rightarrow> Serve_loop H mroot key st')"
  by pat_completeness auto
termination
proof (relation "measure (\<lambda>(H, mroot, key, st). rsize (s_r st))", goal_cases)
  case 1
  show ?case by simp
next
  case (2 H mroot key st st')
  then show ?case using Serve_step_progress [of H key st st'] by simp
qed

declare Serve_loop.simps [simp del]

text \<open>
  \<^verbatim>\<open>Serve(w, r, key)\<close>: the writer as the call leaves it, and the returned root or error.
  Both arrays start zeroed.
\<close>

definition Serve ::
  "sha256 \<Rightarrow> merkle_root \<Rightarrow> writer \<Rightarrow> reader \<Rightarrow> byte32 \<Rightarrow> writer \<times> (serve_err + bytes)" where
  "Serve H mroot wr rd key =
     Serve_loop H mroot key
       \<lparr>s_index = 0, s_w = wr, s_r = rd, cipherMT = NewTree,
        chunkWithPrefix = replicate (ChunkSize + MaxVarintLen64) 0,
        clearHashWithPrefix = replicate (32 + MaxVarintLen64) 0\<rparr>"

section \<open>Facts about the buffers, the varint and the reader\<close>

lemma length_blit [simp]: "off + length src \<le> length buf \<Longrightarrow> length (blit off src buf) = length buf"
  by (simp add: blit_def)

lemma slice_blit_same [simp]:
  "off + length src \<le> length buf \<Longrightarrow> slice off (off + length src) (blit off src buf) = src"
  by (simp add: slice_def blit_def)

lemma slice_blit_prefix:
  "length p + length src \<le> length buf \<Longrightarrow>
   slice 0 (length p + length src) (blit (length p) src (blit 0 p buf)) = p @ src"
  by (simp add: slice_def blit_def)

lemma slice_blit_front [simp]:
  "length p \<le> length buf \<Longrightarrow> slice 0 (length p) (blit 0 p buf) = p"
  by (simp add: slice_def blit_def)

lemma slice_blit_append:
  "length p + length d \<le> length buf \<Longrightarrow>
   slice (length p) (length p + length d) (blit 0 (p @ d) buf) = d"
  by (simp add: slice_def blit_def)

lemma blit_blit_same:
  "length x = length y \<Longrightarrow> off + length y \<le> length buf \<Longrightarrow>
   blit off x (blit off y buf) = blit off x buf"
  by (simp add: blit_def)

lemma length_PutUvarint_le:
  "unat x < 2 ^ (7 * k) \<Longrightarrow> 0 < k \<Longrightarrow> length (PutUvarint x) \<le> k"
proof (induction x arbitrary: k rule: PutUvarint.induct)
  case (1 x)
  show ?case
  proof (cases "0x80 \<le> x")
    case False
    then show ?thesis using 1(3) by (simp add: PutUvarint.simps [of x])
  next
    case True
    then have ge: "128 \<le> unat x" by (simp add: word_le_nat_alt)
    have k1: "1 < k"
    proof (rule ccontr)
      assume "\<not> 1 < k"
      with 1(3) have "k = 1" by simp
      with 1(2) ge show False by simp
    qed
    have "unat (drop_bit 7 x) = unat x div 2 ^ 7"
      by (simp add: drop_bit_eq_div unat_div)
    also have "\<dots> < 2 ^ (7 * (k - 1))"
    proof -
      from k1 obtain k' where "k = Suc k'" by (cases k) auto
      then have "(2::nat) ^ (7 * k) = 2 ^ 7 * 2 ^ (7 * (k - 1))"
        by (simp add: power_add)
      with 1(2) show ?thesis by (simp add: less_mult_imp_div_less mult.commute)
    qed
    finally have "length (PutUvarint (drop_bit 7 x)) \<le> k - 1"
      using 1(1) [OF True] k1 by simp
    with True k1 show ?thesis by (simp add: PutUvarint.simps [of x])
  qed
qed

lemma length_PutUvarint: "length (PutUvarint x) \<le> MaxVarintLen64"
proof -
  have "unat x < 2 ^ 64" using unsigned_less [of x] by simp
  then have "unat x < 2 ^ (7 * 10)" by simp
  from length_PutUvarint_le [OF this] show ?thesis by (simp add: MaxVarintLen64_def)
qed

lemma length_LeafHash [simp]: "length (LeafHash H out inp) = length out + 32"
  using Rep_byte32 [of "H (0 # inp)"] by (simp add: LeafHash_def)

lemma length_keystream [simp]: "length (keystream H key i n) = n"
proof -
  have "length (Rep_byte32 (H (Rep_byte32 key @ PutUvarint i))) = 32"
    using Rep_byte32 [of "H (Rep_byte32 key @ PutUvarint i)"] by simp
  then have "length (concat (replicate (n div 32 + 1) (Rep_byte32 (H (Rep_byte32 key @ PutUvarint i)))))
      = (n div 32 + 1) * 32"
    by (simp add: length_concat sum_list_replicate)
  moreover have "n \<le> (n div 32 + 1) * 32" by simp
  ultimately show ?thesis by (simp add: keystream_def)
qed

lemma length_crypt [simp]: "length (crypt H key chunk i) = length chunk"
  by (simp add: crypt_def)


definition faultless :: "reader \<Rightarrow> bool" where
  "faultless rd = (Broken \<notin> set (rsched rd))"

lemma readLoop_faultless:
  "faultless rd \<Longrightarrow> length acc \<le> want \<Longrightarrow>
   \<exists>rd'. readLoop rd want acc =
     (acc @ take (want - length acc) (rdata rd),
      (if want \<le> length acc + length (rdata rd) then None else Some EOF), rd') \<and>
     rdata rd' = drop (want - length acc) (rdata rd) \<and> faultless rd'"
proof (induction rd want acc rule: readLoop.induct)
  case (1 rd want acc)
  show ?case
  proof (cases "length acc < want")
    case False
    with 1(2,3) show ?thesis by (simp add: readLoop.simps [of rd want acc])
  next
    case True
    obtain xs e1 rd1 where R: "Read rd (want - length acc) = (xs, e1, rd1)"
      by (cases "Read rd (want - length acc)") auto
    show ?thesis
    proof (cases "rdata rd = []")
      case True
      with R 1(2) have "xs = []" "e1 = Some EOF" "rdata rd1 = []" "faultless rd1"
        by (auto simp: faultless_def split: list.splits rstep.splits)
      with R True \<open>length acc < want\<close> show ?thesis
        by (simp add: readLoop.simps [of rd want acc])
    next
      case False
      from R False 1(2) obtain j where
        J: "xs = take j (rdata rd)" "e1 = None" "rdata rd1 = drop j (rdata rd)" "faultless rd1"
          "j \<le> want - length acc"
        by (auto simp: faultless_def split: list.splits rstep.splits)
      from True J have le: "length (acc @ xs) \<le> want" by simp
      from 1(1) [OF True R [symmetric] _ J(2) J(4) le]
      obtain rd' where IH: "readLoop rd1 want (acc @ xs) =
          ((acc @ xs) @ take (want - length (acc @ xs)) (rdata rd1),
           (if want \<le> length (acc @ xs) + length (rdata rd1) then None else Some EOF), rd')"
        "rdata rd' = drop (want - length (acc @ xs)) (rdata rd1)" "faultless rd'"
        by auto
      have L: "readLoop rd want acc = readLoop rd1 want (acc @ xs)"
        using True R J(2) by (simp add: readLoop.simps [of rd want acc])
      have A: "xs @ take (want - length (acc @ xs)) (rdata rd1) = take (want - length acc) (rdata rd)"
      proof -
        have "take (want - length acc) (rdata rd) =
            take j (rdata rd) @ take (want - length acc - j) (drop j (rdata rd))"
          using J(5) by (metis le_add_diff_inverse take_add)
        moreover have "length xs = min j (length (rdata rd))" using J(1) by simp
        ultimately show ?thesis using J(1,3,5)
          by (cases "j \<le> length (rdata rd)") (simp_all add: min_def)
      qed
      have ar: "want - (length acc + j) + j = want - length acc"
        using J(5) by simp
      have B: "drop (want - length (acc @ xs)) (rdata rd1) = drop (want - length acc) (rdata rd)"
        using J(1,3,5) ar by (cases "j \<le> length (rdata rd)") (simp_all add: min_def)
      have C: "(want \<le> length (acc @ xs) + length (rdata rd1)) = (want \<le> length acc + length (rdata rd))"
        using J(1,3,5) by (cases "j \<le> length (rdata rd)") (auto simp: min_def)
      show ?thesis
        using IH A B C L by (intro exI [of _ rd']) simp
    qed
  qed
qed

lemma ReadFull_faultless:
  assumes "faultless rd"
  shows "\<exists>rd'. ReadFull rd want =
     (take want (rdata rd),
      (if want \<le> length (rdata rd) then None
       else if rdata rd = [] then Some EOF else Some ErrUnexpectedEOF), rd') \<and>
     rdata rd' = drop want (rdata rd) \<and> faultless rd'"
proof -
  from readLoop_faultless [OF assms, of "[]" want]
  obtain rd' where L: "readLoop rd want [] =
      (take want (rdata rd), (if want \<le> length (rdata rd) then None else Some EOF), rd')"
    "rdata rd' = drop want (rdata rd)" "faultless rd'"
    by auto
  show ?thesis
    using L by (intro exI [of _ rd']) (auto simp: ReadFull_def)
qed

section \<open>The loop of Serve on streams that do not fail\<close>

definition buffers_ok :: "serve_state \<Rightarrow> bool" where
  "buffers_ok st =
     (length (chunkWithPrefix st) = ChunkSize + MaxVarintLen64 \<and>
      length (clearHashWithPrefix st) = 32 + MaxVarintLen64)"

lemma Serve_step_Break:
  assumes "faultless (s_r st)" and "rdata (s_r st) = []"
  shows "Serve_step H key st = Break"
proof -
  from ReadFull_faultless [OF assms(1), of ChunkSize] assms(2) ChunkSize_pos
  obtain rd' where "ReadFull (s_r st) ChunkSize = ([], Some EOF, rd')"
    by auto
  then show ?thesis by (simp add: Serve_step_def Let_def)
qed

lemma Serve_step_Continue:
  assumes F: "faultless (s_r st)" and N: "rdata (s_r st) \<noteq> []"
    and W: "wleft (s_w st) = None" and B: "buffers_ok st"
  defines "p \<equiv> PutUvarint (s_index st)"
  defines "c \<equiv> take ChunkSize (rdata (s_r st))"
  shows "\<exists>st'. Serve_step H key st = Continue st' \<and>
     s_index st' = s_index st + 1 \<and>
     s_w st' = (s_w st)\<lparr>wout := wout (s_w st) @ LeafHash H [] (p @ c) @ crypt H key c (s_index st)\<rparr> \<and>
     rdata (s_r st') = drop ChunkSize (rdata (s_r st)) \<and> faultless (s_r st') \<and>
     cipherMT st' = cipherMT st @ [p @ crypt H key c (s_index st)] \<and>
     buffers_ok st'"
proof -
  from ReadFull_faultless [OF F, of ChunkSize] N
  obtain rd' e where R: "ReadFull (s_r st) ChunkSize = (c, e, rd')"
    and e: "e = None \<or> e = Some ErrUnexpectedEOF"
    and rd': "rdata rd' = drop ChunkSize (rdata (s_r st))" "faultless rd'"
    unfolding c_def by (auto split: if_splits)
  have lp: "length p \<le> MaxVarintLen64" unfolding p_def by (rule length_PutUvarint)
  have lc: "length c \<le> ChunkSize" unfolding c_def by simp
  from B have lb: "length (chunkWithPrefix st) = ChunkSize + MaxVarintLen64"
    "length (clearHashWithPrefix st) = 32 + MaxVarintLen64"
    by (simp_all add: buffers_ok_def)
  define cwp1 where "cwp1 = blit 0 p (chunkWithPrefix st)"
  define chp1 where "chp1 = blit 0 p (clearHashWithPrefix st)"
  define cwp2 where "cwp2 = blit (length p) c cwp1"
  define chp2 where "chp2 = blit 0 (LeafHash H (slice 0 (length p) chp1) (slice 0 (length p + length c) cwp2)) chp1"
  define cwp3 where "cwp3 = blit (length p) (crypt H key (slice (length p) (length p + length c) cwp2) (s_index st)) cwp2"
  have l1: "length cwp1 = ChunkSize + MaxVarintLen64" "length chp1 = 32 + MaxVarintLen64"
    using lp lb by (simp_all add: cwp1_def chp1_def)
  have l2: "length cwp2 = ChunkSize + MaxVarintLen64"
    using lp lc l1 by (simp add: cwp2_def)
  have s1: "slice 0 (length p) chp1 = p"
    using lp lb by (simp add: chp1_def)
  have s2: "slice 0 (length p + length c) cwp2 = p @ c"
    unfolding cwp2_def cwp1_def using lp lc lb by (intro slice_blit_prefix) simp
  have s3: "slice (length p) (length p + length c) cwp2 = c"
    unfolding cwp2_def using lp lc l1 by (intro slice_blit_same) simp
  have h: "chp2 = blit 0 (p @ Rep_byte32 (H (0 # p @ c))) chp1"
    by (simp add: chp2_def s1 s2 LeafHash_def)
  have lh: "length (Rep_byte32 (H (0 # p @ c))) = 32"
    using Rep_byte32 [of "H (0 # p @ c)"] by simp
  have l3: "length chp2 = 32 + MaxVarintLen64"
    unfolding h using lp lh l1 by simp
  have s4: "slice (length p) (length p + 32) chp2 = Rep_byte32 (H (0 # p @ c))"
    unfolding h using slice_blit_append [of p "Rep_byte32 (H (0 # p @ c))" chp1] lp lh l1 by simp
  have c3: "cwp3 = blit (length p) (crypt H key c (s_index st)) cwp2"
    by (simp add: cwp3_def s3)
  have l4: "length cwp3 = ChunkSize + MaxVarintLen64"
    unfolding c3 using lp lc l2 by simp
  have s5: "slice (length p) (length p + length c) cwp3 = crypt H key c (s_index st)"
    unfolding c3 using slice_blit_same [of "length p" "crypt H key c (s_index st)" cwp2] lp lc l2 by simp
  have s6: "slice 0 (length p + length c) cwp3 = p @ crypt H key c (s_index st)"
  proof -
    have "cwp3 = blit (length p) (crypt H key c (s_index st)) cwp1"
      unfolding c3 cwp2_def using lp lc l1 by (intro blit_blit_same) simp_all
    then show ?thesis
      unfolding cwp1_def
      using slice_blit_prefix [of p "crypt H key c (s_index st)" "chunkWithPrefix st"] lp lc lb
      by simp
  qed
  have "Serve_step H key st =
      Continue \<lparr>s_index = s_index st + 1,
        s_w = (s_w st)\<lparr>wout := (wout (s_w st) @ slice (length p) (length p + 32) chp2) @
                 slice (length p) (length p + length c) cwp3\<rparr>,
        s_r = rd',
        cipherMT = Add (cipherMT st) (slice 0 (length p + length c) cwp3),
        chunkWithPrefix = cwp3, clearHashWithPrefix = chp2\<rparr>"
    using e W
    by (auto simp: Serve_step_def Let_def R p_def [symmetric] cwp1_def [symmetric]
        chp1_def [symmetric] cwp2_def [symmetric] chp2_def [symmetric] cwp3_def [symmetric])
  then show ?thesis
    using rd' l3 l4 by (simp add: s4 s5 s6 Add_def buffers_ok_def LeafHash_def)
qed


definition chunk :: "bytes \<Rightarrow> nat \<Rightarrow> bytes" where
  "chunk data i = take ChunkSize (drop (i * ChunkSize) data)"

definition nchunks :: "bytes \<Rightarrow> nat" where
  "nchunks data = (length data + ChunkSize - 1) div ChunkSize"

lemma nchunks_Nil [simp]: "nchunks [] = 0"
  using ChunkSize_pos by (simp add: nchunks_def)

lemma nchunks_drop: "d \<noteq> [] \<Longrightarrow> nchunks d = Suc (nchunks (drop ChunkSize d))"
proof -
  assume "d \<noteq> []"
  then have pos: "0 < length d" by simp
  show ?thesis
  proof (cases "ChunkSize \<le> length d")
    case True
    then have "length d + ChunkSize - 1 = (length d - ChunkSize + ChunkSize - 1) + ChunkSize"
      using ChunkSize_pos by simp
    then have "(length d + ChunkSize - 1) div ChunkSize =
        (length d - ChunkSize + ChunkSize - 1) div ChunkSize + 1"
      using ChunkSize_pos by (metis div_add_self2 less_numeral_extra(3))
    then show ?thesis by (simp add: nchunks_def)
  next
    case False
    then have "(length d + ChunkSize - 1) div ChunkSize = 1"
      using pos by (intro div_nat_eqI; simp; arith)
    with False show ?thesis using ChunkSize_pos by (simp add: nchunks_def)
  qed
qed

lemma chunk_0: "chunk d 0 = take ChunkSize d"
  by (simp add: chunk_def)

lemma chunk_Suc: "chunk d (Suc j) = chunk (drop ChunkSize d) j"
  by (simp add: chunk_def add.commute)

lemma Serve_loop_faultless:
  assumes "faultless (s_r st)" and "wleft (s_w st) = None" and "buffers_ok st"
  shows "Serve_loop H mroot key st =
    ((s_w st)\<lparr>wout := wout (s_w st) @
        concat (map (\<lambda>j. LeafHash H [] (PutUvarint (s_index st + of_nat j) @ chunk (rdata (s_r st)) j) @
                          crypt H key (chunk (rdata (s_r st)) j) (s_index st + of_nat j))
                 [0..<nchunks (rdata (s_r st))])\<rparr>,
     Inr (mroot (cipherMT st @
        map (\<lambda>j. PutUvarint (s_index st + of_nat j) @
                  crypt H key (chunk (rdata (s_r st)) j) (s_index st + of_nat j))
          [0..<nchunks (rdata (s_r st))])))"
  using assms
proof (induction "length (rdata (s_r st))" arbitrary: st rule: less_induct)
  case less
  show ?case
  proof (cases "rdata (s_r st) = []")
    case True
    with Serve_step_Break [OF less.prems(1) True, of H key]
    show ?thesis by (simp add: Serve_loop.simps [of H mroot key st] Root_def)
  next
    case False
    from Serve_step_Continue [OF less.prems(1) False less.prems(2,3), of H key]
    obtain st' where S: "Serve_step H key st = Continue st'"
      and st': "s_index st' = s_index st + 1"
        "s_w st' = (s_w st)\<lparr>wout := wout (s_w st) @
            LeafHash H [] (PutUvarint (s_index st) @ take ChunkSize (rdata (s_r st))) @
            crypt H key (take ChunkSize (rdata (s_r st))) (s_index st)\<rparr>"
        "rdata (s_r st') = drop ChunkSize (rdata (s_r st))" "faultless (s_r st')"
        "cipherMT st' = cipherMT st @
            [PutUvarint (s_index st) @ crypt H key (take ChunkSize (rdata (s_r st))) (s_index st)]"
        "buffers_ok st'"
      by blast
    have lt: "length (rdata (s_r st')) < length (rdata (s_r st))"
      using False ChunkSize_pos st'(3) by simp
    have w': "wleft (s_w st') = None" using st'(2) less.prems(2) by simp
    have L: "Serve_loop H mroot key st = Serve_loop H mroot key st'"
      using S by (simp add: Serve_loop.simps [of H mroot key st])
    have ix: "\<And>j. s_index st + 1 + of_nat j = s_index st + of_nat (Suc j)"
      by simp
    show ?thesis
      unfolding L less.hyps [OF lt st'(4) w' st'(6)]
      unfolding st' nchunks_drop [OF False] map_upt_Suc ix
      by (simp add: chunk_0 chunk_Suc)
  qed
qed

section \<open>What Serve writes and returns\<close>

text \<open>
  \<open>varint i\<close> is the prefix the loop writes for the chunk with number \<open>i\<close>: the loop
  counter is a \<^verbatim>\<open>uint64\<close>, so \<open>i\<close> is taken modulo \<open>2 ^ 64\<close>.
\<close>

definition varint :: "nat \<Rightarrow> bytes" where
  "varint i = PutUvarint (of_nat i)"

lemma PutUvarint_0: "PutUvarint 0 = [0]"
  by (simp add: PutUvarint.simps [of 0])

lemma concat_chunks: "concat (map (chunk d) [0..<nchunks d]) = d"
proof (induction "length d" arbitrary: d rule: less_induct)
  case less
  show ?case
  proof (cases "d = []")
    case True
    then show ?thesis by simp
  next
    case False
    then have "length (drop ChunkSize d) < length d"
      using ChunkSize_pos by simp
    from less [OF this] show ?thesis
      unfolding nchunks_drop [OF False] map_upt_Suc
      by (simp add: chunk_0 chunk_Suc)
  qed
qed

lemma Serve_faultless:
  assumes "faultless rd" and "wleft wr = None"
  shows "Serve H mroot wr rd key =
    (wr\<lparr>wout := wout wr @
        concat (map (\<lambda>i. LeafHash H [] (varint i @ chunk (rdata rd) i) @
                          crypt H key (chunk (rdata rd) i) (of_nat i))
                 [0..<nchunks (rdata rd)])\<rparr>,
     Inr (mroot (map (\<lambda>i. varint i @ crypt H key (chunk (rdata rd) i) (of_nat i))
                  [0..<nchunks (rdata rd)])))"
  unfolding Serve_def
  by (subst Serve_loop_faultless)
    (simp_all add: assms buffers_ok_def NewTree_def varint_def)

text \<open>
  The empty file (C7): the first \<^verbatim>\<open>io.ReadFull\<close> returns \<^verbatim>\<open>io.EOF\<close>, so nothing is written
  and the result is \<^verbatim>\<open>Root\<close> of the tree to which nothing was added. Which bytes that root
  is, the merkle module decides; the code fixes no more than this.
\<close>

lemma Serve_empty_file:
  assumes "faultless rd" and "rdata rd = []"
  shows "Serve H mroot wr rd key = (wr, Inr (mroot []))"
  unfolding Serve_def
  by (subst Serve_loop.simps) (simp add: Serve_step_Break assms Root_def NewTree_def)

text \<open>
  C4. For every file (the data of a reader that does not fail, read in whatever
  pieces) and every key, Serve appends to the output exactly the records
  \<open>clearHash i || cipherChunk i\<close> for \<open>i = 0, 1, ...\<close> in this order and nothing else, and
  returns the root of the tree whose leaves are \<open>varint i || cipherChunk i\<close>. Here
  chunk \<open>i\<close> is the \<open>i\<close>-th run of \<open>ChunkSize\<close> bytes of the file (the chunks
  concatenate to the file), \<open>clearHash i\<close> is the leaf hash of
  \<open>varint i || chunk i\<close> and has 32 bytes, and \<open>cipherChunk i\<close> is chunk \<open>i\<close> XORed with
  the keystream for index \<open>i\<close>.
\<close>

theorem Serve_stream:
  assumes "faultless rd" and "wleft wr = None"
  shows "Serve H mroot wr rd key =
      (wr\<lparr>wout := wout wr @
          concat (map (\<lambda>i. LeafHash H [] (varint i @ chunk (rdata rd) i) @
                            crypt H key (chunk (rdata rd) i) (of_nat i))
                   [0..<nchunks (rdata rd)])\<rparr>,
       Inr (mroot (map (\<lambda>i. varint i @ crypt H key (chunk (rdata rd) i) (of_nat i))
                    [0..<nchunks (rdata rd)]))) \<and>
    (\<forall>i. length (LeafHash H [] (varint i @ chunk (rdata rd) i)) = 32 \<and>
         crypt H key (chunk (rdata rd) i) (of_nat i) =
           map2 (XOR) (chunk (rdata rd) i)
             (keystream H key (of_nat i) (length (chunk (rdata rd) i)))) \<and>
    concat (map (chunk (rdata rd)) [0..<nchunks (rdata rd)]) = rdata rd"
  using Serve_faultless [OF assms, of H mroot key]
    Rep_byte32 [of "H (0 # varint i @ chunk (rdata rd) i)" for i]
  by (simp add: concat_chunks crypt_def LeafHash_def)

theorem Serve_stream_witness:
  "\<forall>H mroot key.
     faultless \<lparr>rdata = [0x41, 0x42], rsched = [Short 1]\<rparr> \<and>
     wleft \<lparr>wout = [], wleft = None\<rparr> = None \<and>
     Serve H mroot \<lparr>wout = [], wleft = None\<rparr> \<lparr>rdata = [0x41, 0x42], rsched = [Short 1]\<rparr> key =
       (\<lparr>wout = LeafHash H [] [0, 0x41, 0x42] @ crypt H key [0x41, 0x42] 0, wleft = None\<rparr>,
        Inr (mroot [0 # crypt H key [0x41, 0x42] 0]))"
  using Serve_stream [of "\<lparr>rdata = [0x41, 0x42], rsched = [Short 1]\<rparr>" "\<lparr>wout = [], wleft = None\<rparr>"]
  by (simp add: faultless_def nchunks_def chunk_def ChunkSize_def varint_def PutUvarint_0)

lemma PutUvarint_1: "PutUvarint 1 = [1]"
  by (simp add: PutUvarint.simps [of 1] word_le_nat_alt)

lemma ReadFull_EOF_empty:
  assumes "ReadFull rd want = (bs, Some EOF, rd')"
  shows "bs = []"
proof -
  obtain xs e rd1 where L: "readLoop rd want [] = (xs, e, rd1)"
    by (cases "readLoop rd want []") auto
  with assms show ?thesis
    by (auto simp: ReadFull_def split: if_splits)
qed

lemma Serve_step_Break_iff:
  "(Serve_step H key st = Break) = (\<exists>rd'. ReadFull (s_r st) ChunkSize = ([], Some EOF, rd'))"
proof -
  obtain bs e rd' where R: "ReadFull (s_r st) ChunkSize = (bs, e, rd')"
    by (cases "ReadFull (s_r st) ChunkSize") auto
  have "(Serve_step H key st = Break) = (e = Some EOF)"
    using R by (auto simp: Serve_step_def Let_def split: option.splits)
  moreover have "e = Some EOF \<Longrightarrow> bs = []"
    using R ReadFull_EOF_empty by blast
  ultimately show ?thesis using R by auto
qed

text \<open>
  C6. A file of exactly \<open>ChunkSize + 5\<close> bytes gives exactly two records; the first
  cipher chunk has \<open>ChunkSize\<close> bytes and the last one exactly 5. In general a pass of
  the loop leaves it exactly when \<^verbatim>\<open>io.ReadFull\<close> returns \<^verbatim>\<open>io.EOF\<close>, which it does only
  with zero bytes read, so a short last chunk is still served.
\<close>

theorem Serve_short_last_chunk:
  assumes "faultless rd" and "wleft wr = None" and "length (rdata rd) = ChunkSize + 5"
  shows "Serve H mroot wr rd key =
      (wr\<lparr>wout := wout wr @
          (LeafHash H [] (varint 0 @ take ChunkSize (rdata rd)) @
             crypt H key (take ChunkSize (rdata rd)) 0) @
          (LeafHash H [] (varint 1 @ drop ChunkSize (rdata rd)) @
             crypt H key (drop ChunkSize (rdata rd)) 1)\<rparr>,
       Inr (mroot [varint 0 @ crypt H key (take ChunkSize (rdata rd)) 0,
                   varint 1 @ crypt H key (drop ChunkSize (rdata rd)) 1])) \<and>
    nchunks (rdata rd) = 2 \<and>
    length (crypt H key (take ChunkSize (rdata rd)) 0) = ChunkSize \<and>
    length (crypt H key (drop ChunkSize (rdata rd)) 1) = 5 \<and>
    (\<forall>st. (Serve_step H key st = Break) =
          (\<exists>rd'. ReadFull (s_r st) ChunkSize = ([], Some EOF, rd')))"
proof -
  have n: "nchunks (rdata rd) = 2"
    using assms(3) by (simp add: nchunks_def ChunkSize_def)
  have u: "[0..<2] = [0, 1]" by (simp add: upt_rec)
  have c0: "chunk (rdata rd) 0 = take ChunkSize (rdata rd)" by (simp add: chunk_def)
  have c1: "chunk (rdata rd) (Suc 0) = drop ChunkSize (rdata rd)"
  proof -
    have "5 \<le> ChunkSize" by (simp add: ChunkSize_def)
    with assms(3) show ?thesis by (simp add: chunk_def)
  qed
  show ?thesis
    using Serve_faultless [OF assms(1,2), of H mroot key] assms(3) Serve_step_Break_iff [of H key]
    by (simp add: n u c0 c1)
qed

theorem Serve_short_last_chunk_witness:
  "\<forall>H mroot key.
     faultless \<lparr>rdata = replicate (ChunkSize + 5) 0x41, rsched = []\<rparr> \<and>
     wleft \<lparr>wout = [], wleft = None\<rparr> = None \<and>
     length (rdata \<lparr>rdata = replicate (ChunkSize + 5) 0x41, rsched = []\<rparr>) = ChunkSize + 5 \<and>
     Serve H mroot \<lparr>wout = [], wleft = None\<rparr>
         \<lparr>rdata = replicate (ChunkSize + 5) 0x41, rsched = []\<rparr> key =
       (\<lparr>wout =
           (LeafHash H [] (0 # replicate ChunkSize 0x41) @
              crypt H key (replicate ChunkSize 0x41) 0) @
           (LeafHash H [] (1 # replicate 5 0x41) @ crypt H key (replicate 5 0x41) 1),
         wleft = None\<rparr>,
        Inr (mroot [0 # crypt H key (replicate ChunkSize 0x41) 0,
                    1 # crypt H key (replicate 5 0x41) 1])) \<and>
     length (crypt H key (replicate 5 0x41) 1) = 5"
  using Serve_short_last_chunk
    [of "\<lparr>rdata = replicate (ChunkSize + 5) 0x41, rsched = []\<rparr>" "\<lparr>wout = [], wleft = None\<rparr>"]
  by (simp add: faultless_def varint_def PutUvarint_0 PutUvarint_1)

text \<open>
  C9. Serve is deterministic: two runs on the same file contents and the same key,
  whatever pieces the two readers deliver the contents in and whatever the two writers
  held before, append the same byte stream and return the same root.
\<close>

theorem Serve_deterministic:
  assumes "rdata r1 = rdata r2" and "faultless r1" and "faultless r2"
    and "wleft w1 = None" and "wleft w2 = None"
  shows "\<exists>stream root.
      Serve H mroot w1 r1 key = (w1\<lparr>wout := wout w1 @ stream\<rparr>, Inr root) \<and>
      Serve H mroot w2 r2 key = (w2\<lparr>wout := wout w2 @ stream\<rparr>, Inr root)"
proof (intro exI conjI)
  show "Serve H mroot w1 r1 key =
      (w1\<lparr>wout := wout w1 @
          concat (map (\<lambda>i. LeafHash H [] (varint i @ chunk (rdata r2) i) @
                            crypt H key (chunk (rdata r2) i) (of_nat i))
                   [0..<nchunks (rdata r2)])\<rparr>,
       Inr (mroot (map (\<lambda>i. varint i @ crypt H key (chunk (rdata r2) i) (of_nat i))
                    [0..<nchunks (rdata r2)])))"
    using Serve_faultless [OF assms(2,4), of H mroot key] assms(1) by simp
  show "Serve H mroot w2 r2 key =
      (w2\<lparr>wout := wout w2 @
          concat (map (\<lambda>i. LeafHash H [] (varint i @ chunk (rdata r2) i) @
                            crypt H key (chunk (rdata r2) i) (of_nat i))
                   [0..<nchunks (rdata r2)])\<rparr>,
       Inr (mroot (map (\<lambda>i. varint i @ crypt H key (chunk (rdata r2) i) (of_nat i))
                    [0..<nchunks (rdata r2)])))"
    using Serve_faultless [OF assms(3,5), of H mroot key] by simp
qed

theorem Serve_deterministic_witness:
  "\<forall>H mroot key.
     rdata \<lparr>rdata = [1, 2, 3], rsched = [Short 1, Short 0]\<rparr> = rdata \<lparr>rdata = [1, 2, 3], rsched = []\<rparr> \<and>
     faultless \<lparr>rdata = [1, 2, 3], rsched = [Short 1, Short 0]\<rparr> \<and>
     faultless \<lparr>rdata = [1, 2, 3], rsched = []\<rparr> \<and>
     (\<exists>stream root.
        Serve H mroot \<lparr>wout = [], wleft = None\<rparr> \<lparr>rdata = [1, 2, 3], rsched = [Short 1, Short 0]\<rparr> key =
          (\<lparr>wout = stream, wleft = None\<rparr>, Inr root) \<and>
        Serve H mroot \<lparr>wout = [9], wleft = None\<rparr> \<lparr>rdata = [1, 2, 3], rsched = []\<rparr> key =
          (\<lparr>wout = 9 # stream, wleft = None\<rparr>, Inr root))"
  using Serve_deterministic
    [of "\<lparr>rdata = [1, 2, 3], rsched = [Short 1, Short 0]\<rparr>" "\<lparr>rdata = [1, 2, 3], rsched = []\<rparr>"
      "\<lparr>wout = [], wleft = None\<rparr>" "\<lparr>wout = [9], wleft = None\<rparr>"]
  by (simp add: faultless_def)

subsection \<open>The roots Serve hands back\<close>

text \<open>
  Go's \<^verbatim>\<open>Serve\<close> returns \<^verbatim>\<open>([]byte, error)\<close>: \<open>returned_roots\<close> lists the roots among its
  results. The two roots of the spec's \<open>encode\<close> (section 4.A), in the words of the
  spec: the clear tree has the leaves \<open>varint i || chunk i\<close>, the cipher tree the leaves
  \<open>varint i || cipherChunk i\<close>.
\<close>

definition returned_roots :: "writer \<times> (serve_err + bytes) \<Rightarrow> bytes list" where
  "returned_roots res = (case snd res of Inl e \<Rightarrow> [] | Inr root \<Rightarrow> [root])"

definition encode_clearRoot :: "merkle_root \<Rightarrow> bytes \<Rightarrow> bytes" where
  "encode_clearRoot mroot data = mroot (map (\<lambda>i. varint i @ chunk data i) [0..<nchunks data])"

definition encode_cipherRoot :: "sha256 \<Rightarrow> merkle_root \<Rightarrow> byte32 \<Rightarrow> bytes \<Rightarrow> bytes" where
  "encode_cipherRoot H mroot key data =
     mroot (map (\<lambda>i. varint i @ crypt H key (chunk data i) (of_nat i)) [0..<nchunks data])"

lemma length_returned_roots: "length (returned_roots res) \<le> 1"
  by (simp add: returned_roots_def split: sum.splits)

text \<open>
  C1, as the spec states it: Serve builds a clear Merkle tree beside the cipher tree and
  returns both roots. It fails: for the one-byte file \<open>0x41\<close>, and every digest function,
  root function and key, what Serve returns is the cipher root alone.
\<close>

theorem Serve_both_roots_counterexample:
  "\<forall>H mroot key.
     returned_roots (Serve H mroot \<lparr>wout = [], wleft = None\<rparr> \<lparr>rdata = [0x41], rsched = []\<rparr> key) \<noteq>
       [encode_clearRoot mroot [0x41], encode_cipherRoot H mroot key [0x41]] \<and>
     returned_roots (Serve H mroot \<lparr>wout = [], wleft = None\<rparr> \<lparr>rdata = [0x41], rsched = []\<rparr> key) =
       [encode_cipherRoot H mroot key [0x41]]"
proof (intro allI conjI)
  fix H mroot key
  have f: "faultless \<lparr>rdata = [0x41], rsched = []\<rparr>" by (simp add: faultless_def)
  have w: "wleft \<lparr>wout = [], wleft = None\<rparr> = None" by simp
  from Serve_faultless [OF f w, of H mroot key]
  show "returned_roots (Serve H mroot \<lparr>wout = [], wleft = None\<rparr> \<lparr>rdata = [0x41], rsched = []\<rparr> key) =
       [encode_cipherRoot H mroot key [0x41]]"
    by (simp add: returned_roots_def encode_cipherRoot_def)
  then show "returned_roots (Serve H mroot \<lparr>wout = [], wleft = None\<rparr> \<lparr>rdata = [0x41], rsched = []\<rparr> key) \<noteq>
       [encode_clearRoot mroot [0x41], encode_cipherRoot H mroot key [0x41]]"
    by simp
qed

text \<open>
  C1, amended. Serve builds one Merkle tree, the cipher tree over the leaves
  \<open>varint i || cipherChunk i\<close>, and returns its root alone. The clear hashes are written
  to the output stream, each ahead of its cipher chunk; they enter no tree and no clear
  root is returned.
\<close>

theorem Serve_returns_one_root:
  assumes "faultless rd" and "wleft wr = None"
  shows "returned_roots (Serve H mroot wr rd key) = [encode_cipherRoot H mroot key (rdata rd)] \<and>
    wout (fst (Serve H mroot wr rd key)) = wout wr @
      concat (map (\<lambda>i. LeafHash H [] (varint i @ chunk (rdata rd) i) @
                        crypt H key (chunk (rdata rd) i) (of_nat i))
               [0..<nchunks (rdata rd)])"
  using Serve_faultless [OF assms, of H mroot key]
  by (simp add: returned_roots_def encode_cipherRoot_def)

theorem Serve_returns_one_root_witness:
  "\<forall>H mroot key.
     faultless \<lparr>rdata = [0x41], rsched = []\<rparr> \<and> wleft \<lparr>wout = [], wleft = None\<rparr> = None \<and>
     returned_roots (Serve H mroot \<lparr>wout = [], wleft = None\<rparr> \<lparr>rdata = [0x41], rsched = []\<rparr> key) =
       [mroot [0 # crypt H key [0x41] 0]] \<and>
     wout (fst (Serve H mroot \<lparr>wout = [], wleft = None\<rparr> \<lparr>rdata = [0x41], rsched = []\<rparr> key)) =
       LeafHash H [] [0, 0x41] @ crypt H key [0x41] 0"
  using Serve_returns_one_root [of "\<lparr>rdata = [0x41], rsched = []\<rparr>" "\<lparr>wout = [], wleft = None\<rparr>"]
  by (simp add: faultless_def encode_cipherRoot_def nchunks_def chunk_def ChunkSize_def
      varint_def PutUvarint_0)

section \<open>encoding/binary: signed varints and decoding\<close>

text \<open>
  \<^verbatim>\<open>binary.PutVarint(buf, x)\<close>:
  \<^verbatim>\<open>ux := uint64(x) << 1; if x < 0 { ux = ^ux }; return PutUvarint(buf, ux)\<close>
\<close>

definition PutVarint :: "int64 \<Rightarrow> bytes" where
  "PutVarint x = (let ux = push_bit 1 x in PutUvarint (if sint x < 0 then NOT ux else ux))"

text \<open>
  \<^verbatim>\<open>binary.Uvarint(buf)\<close> (Go 1.14): the value and the number of bytes read; \<open>0, 0\<close> when
  the buffer ends early, \<open>0, -(i + 1)\<close> on overflow. \<open>i\<close> is the position, \<open>x\<close> the value
  so far and \<open>s\<close> the shift.
\<close>

fun Uvarint_loop :: "nat \<Rightarrow> uint64 \<Rightarrow> nat \<Rightarrow> bytes \<Rightarrow> uint64 \<times> int" where
  "Uvarint_loop i x s [] = (0, 0)"
| "Uvarint_loop i x s (b # buf) =
     (if b < 0x80 then
        (if 9 < i \<or> (i = 9 \<and> 1 < b) then (0, - (int i + 1))
         else (x OR push_bit s (ucast b), int i + 1))
      else Uvarint_loop (i + 1) (x OR push_bit s (ucast (b AND 0x7f))) (s + 7) buf)"

definition Uvarint :: "bytes \<Rightarrow> uint64 \<times> int" where
  "Uvarint buf = Uvarint_loop 0 0 0 buf"

text \<open>
  \<^verbatim>\<open>binary.Varint(buf)\<close>:
  \<^verbatim>\<open>ux, n := Uvarint(buf); x := int64(ux >> 1); if ux&1 != 0 { x = ^x }; return x, n\<close>
\<close>

definition Varint :: "bytes \<Rightarrow> int64 \<times> int" where
  "Varint buf =
     (case Uvarint buf of
        (ux, n) \<Rightarrow> ((if ux AND 1 \<noteq> 0 then NOT (drop_bit 1 ux) else drop_bit 1 ux), n))"

lemma m7: "(0x7f :: byte) = mask 7" by (simp add: mask_eq_exp_minus_1)
lemma m7': "(0x7f :: uint64) = mask 7" by (simp add: mask_eq_exp_minus_1)
lemma b7: "(0x80 :: byte) = 2 ^ 7" by simp

lemma varint_byte_high: "\<not> ((ucast (x :: uint64) OR 0x80 :: byte) < 0x80)"
proof -
  have "(0x80 :: byte) \<le> 0x80 OR ucast x" by (rule le_word_or2)
  then show ?thesis by (simp add: or.commute not_less)
qed

lemma varint_byte_low: "(x :: uint64) < 0x80 \<Longrightarrow> (ucast x :: byte) < 0x80"
proof -
  assume "x < 0x80"
  then have "unat x < 128" by (simp add: word_less_nat_alt)
  then have "unat (ucast x :: byte) < 128"
    by (simp add: unsigned_ucast_eq take_bit_eq_mod)
  then show ?thesis by (simp add: word_less_nat_alt)
qed

lemma ucast_ucast_low: "(x :: uint64) < 0x80 \<Longrightarrow> (ucast (ucast x :: byte) :: uint64) = x"
proof -
  assume "x < 0x80"
  then have "unat x < 128" by (simp add: word_less_nat_alt)
  then have "unat (ucast (ucast x :: byte) :: uint64) = unat x"
    by (simp add: unsigned_ucast_eq take_bit_eq_mod unat_mod)
  then show ?thesis by (simp add: word_eq_iff_unsigned [where ?'a = nat])
qed

lemma bit_0x80: "bit (0x80 :: byte) n = (n = 7)"
proof -
  have "bit (2 ^ 7 :: byte) n = (n = 7)" by (auto simp only: bit_exp_iff) simp_all
  then show ?thesis by simp
qed

lemma bit_0x80_int: "bit (128 :: int) n = (n = 7)"
proof -
  have "bit (2 ^ 7 :: int) n = (n = 7)" by (auto simp only: bit_exp_iff) simp_all
  then show ?thesis by simp
qed

lemma ucast_low7: "(ucast ((ucast (x :: uint64) OR 0x80 :: byte) AND 0x7f) :: uint64) = x AND 0x7f"
  unfolding m7 m7'
  by (rule bit_word_eqI) (auto simp: bit_simps bit_0x80_int)

lemma push_bit_split7:
  "push_bit s ((v :: uint64) AND 0x7f) OR push_bit (s + 7) (drop_bit 7 v) = push_bit s v"
  unfolding m7'
proof (rule bit_word_eqI)
  fix n
  assume "n < LENGTH(64)"
  show "bit (push_bit s (v AND mask 7) OR push_bit (s + 7) (drop_bit 7 v)) n = bit (push_bit s v) n"
  proof (cases "n < s + 7")
    case True
    then show ?thesis by (auto simp: bit_simps)
  next
    case False
    then have "7 + (n - (s + 7)) = n - s" by simp
    with False show ?thesis by (auto simp: bit_simps)
  qed
qed


lemma Uvarint_loop_PutUvarint:
  "i \<le> 9 \<Longrightarrow> unat v < 2 ^ (64 - 7 * i) \<Longrightarrow>
   Uvarint_loop i x (7 * i) (PutUvarint v @ rest) =
     (x OR push_bit (7 * i) v, int (i + length (PutUvarint v)))"
proof (induction v arbitrary: i x rule: PutUvarint.induct)
  case (1 v)
  show ?case
  proof (cases "0x80 \<le> v")
    case False
    then have lt: "v < 0x80" by simp
    have small: "\<not> (i = 9 \<and> 1 < (ucast v :: byte))"
    proof
      assume a: "i = 9 \<and> 1 < (ucast v :: byte)"
      with 1(3) have "unat v < 2" by simp
      then have "unat (ucast v :: byte) < 2"
        by (simp add: unsigned_ucast_eq take_bit_eq_mod unat_mod)
      with a show False by (simp add: word_less_nat_alt)
    qed
    show ?thesis
      using False 1(2) small varint_byte_low [OF lt] ucast_ucast_low [OF lt]
      by (simp add: PutUvarint.simps [of v])
  next
    case True
    then have ge: "128 \<le> unat v" by (simp add: word_le_nat_alt)
    have i8: "i \<le> 8"
    proof (rule ccontr)
      assume "\<not> i \<le> 8"
      with 1(2) have "i = 9" by simp
      with 1(3) ge show False by simp
    qed
    have d: "unat (drop_bit 7 v) = unat v div 2 ^ 7"
      by (simp add: drop_bit_eq_div unat_div)
    have "64 - 7 * i = 7 + (64 - 7 * (i + 1))"
      using i8 by simp
    then have "(2::nat) ^ (64 - 7 * i) = 2 ^ 7 * 2 ^ (64 - 7 * (i + 1))"
      by (simp only: power_add)
    with 1(3) have b: "unat (drop_bit 7 v) < 2 ^ (64 - 7 * (i + 1))"
      unfolding d by (simp add: less_mult_imp_div_less mult.commute)
    have s: "7 * i + 7 = 7 * (i + 1)" by simp
    from i8 have i9: "i + 1 \<le> 9" by simp
    have P: "PutUvarint v = (ucast v OR 0x80) # PutUvarint (drop_bit 7 v)"
      using True by (simp add: PutUvarint.simps [of v])
    have "Uvarint_loop i x (7 * i) (PutUvarint v @ rest) =
        Uvarint_loop (i + 1) (x OR push_bit (7 * i) (v AND 0x7f)) (7 * i + 7)
          (PutUvarint (drop_bit 7 v) @ rest)"
      unfolding P using varint_byte_high [of v]
      by (simp add: ucast_low7 del: push_bit_and)
    also have "\<dots> = ((x OR push_bit (7 * i) (v AND 0x7f)) OR push_bit (7 * (i + 1)) (drop_bit 7 v),
        int (i + 1 + length (PutUvarint (drop_bit 7 v))))"
      unfolding s by (rule 1(1) [OF True i9 b])
    also have "(x OR push_bit (7 * i) (v AND 0x7f)) OR push_bit (7 * (i + 1)) (drop_bit 7 v) =
        x OR push_bit (7 * i) v"
      using push_bit_split7 [of "7 * i" v] by (simp only: or.assoc s)
    also have "i + 1 + length (PutUvarint (drop_bit 7 v)) = i + length (PutUvarint v)"
      unfolding P by simp
    finally show ?thesis .
  qed
qed

lemma Uvarint_PutUvarint: "Uvarint (PutUvarint v) = (v, int (length (PutUvarint v)))"
proof -
  have "unat v < 2 ^ 64" using unsigned_less [of v] by simp
  with Uvarint_loop_PutUvarint [of 0 v 0 "[]"] show ?thesis
    by (simp add: Uvarint_def)
qed

lemma length_PutUvarint_pos: "0 < length (PutUvarint v)"
  by (simp add: PutUvarint.simps [of v])

lemma bit_zigzag_neg:
  "n < 64 \<Longrightarrow>
   bit (NOT (drop_bit k (NOT (push_bit k (x :: int64))))) n = (bit x n \<or> 64 \<le> n + k)"
  by (auto simp: bit_simps)

lemma bit_zigzag_pos:
  "n < 64 \<Longrightarrow> bit (drop_bit k (push_bit k (x :: int64))) n = (bit x n \<and> n + k < 64)"
  by (auto simp: bit_simps)

lemma bit0_zigzag_neg: "0 < k \<Longrightarrow> bit (NOT (push_bit k (x :: int64))) 0"
  by (auto simp: bit_simps)

lemma bit0_zigzag_pos: "0 < k \<Longrightarrow> \<not> bit (push_bit k (x :: int64)) 0"
  by (auto simp: bit_simps)

lemma zigzag_inverse:
  "(let ux = (if sint (x :: int64) < 0 then NOT (push_bit 1 x) else push_bit 1 x)
    in if ux AND 1 \<noteq> 0 then NOT (drop_bit 1 ux) else drop_bit 1 ux) = x"
proof (cases "sint x < 0")
  case True
  then have msb: "bit x 63" using bit_last_iff [of x] by simp
  have "odd (NOT (push_bit 1 x))"
    using bit0_zigzag_neg [of 1 x] by (simp only: bit_0) simp
  then have o: "NOT (push_bit 1 x) AND 1 = 1"
    by (simp only: and_one_eq odd_iff_mod_2_eq_one)
  have "NOT (drop_bit 1 (NOT (push_bit 1 x))) = x"
  proof (rule bit_word_eqI)
    fix n
    assume n: "n < LENGTH(64)"
    then have "bit (NOT (drop_bit 1 (NOT (push_bit 1 x)))) n = (bit x n \<or> 64 \<le> n + 1)"
      by (intro bit_zigzag_neg) simp
    also have "\<dots> = bit x n"
      using msb n by (cases "n = 63") auto
    finally show "bit (NOT (drop_bit 1 (NOT (push_bit 1 x)))) n = bit x n" .
  qed
  with True o show ?thesis by (simp only: Let_def if_True) simp
next
  case False
  then have msb: "\<not> bit x 63" using bit_last_iff [of x] by simp
  have "even (push_bit 1 x)"
    using bit0_zigzag_pos [of 1 x] by (simp only: bit_0) simp
  then have o: "push_bit 1 x AND 1 = 0"
    by (simp only: and_one_eq even_iff_mod_2_eq_zero)
  have "drop_bit 1 (push_bit 1 x) = x"
  proof (rule bit_word_eqI)
    fix n
    assume n: "n < LENGTH(64)"
    then have "bit (drop_bit 1 (push_bit 1 x)) n = (bit x n \<and> n + 1 < 64)"
      by (intro bit_zigzag_pos) simp
    also have "\<dots> = bit x n"
      using msb n by (cases "n = 63") auto
    finally show "bit (drop_bit 1 (push_bit 1 x)) n = bit x n" .
  qed
  with False o show ?thesis by (simp only: Let_def if_False) simp
qed

lemma Varint_PutVarint: "Varint (PutVarint x) = (x, int (length (PutVarint x)))"
  using zigzag_inverse [of x]
  by (simp add: Varint_def PutVarint_def Uvarint_PutUvarint Let_def split: if_splits)


section \<open>Times (package bc of chain/txvm)\<close>

text \<open>
  A \<^verbatim>\<open>time.Time\<close> is its wall-clock instant, in nanoseconds since the Unix epoch; a
  \<^verbatim>\<open>time.Duration\<close> is an \<^verbatim>\<open>int64\<close> of nanoseconds. \<^verbatim>\<open>t.UnixNano()\<close> keeps the low 64
  bits, \<^verbatim>\<open>time.Unix(0, nsec)\<close> is the instant \<open>nsec\<close> nanoseconds after the epoch.
  \<^verbatim>\<open>bc.Millis\<close> and \<^verbatim>\<open>bc.FromMillis\<close> belong to the external module chain/txvm:
  \<^verbatim>\<open>Millis(t) = uint64(t.UnixNano()) / uint64(time.Millisecond)\<close> and
  \<^verbatim>\<open>FromMillis(ms) = time.Unix(0, int64(ms)*int64(time.Millisecond))\<close>.
\<close>

type_synonym time = int

definition UnixNano :: "time \<Rightarrow> int64" where
  "UnixNano t = of_int t"

definition Unix :: "int64 \<Rightarrow> time" where
  "Unix nsec = sint nsec"

definition Millis :: "time \<Rightarrow> uint64" where
  "Millis t = UnixNano t div 1000000"

definition FromMillis :: "uint64 \<Rightarrow> time" where
  "FromMillis ms = Unix (ms * 1000000)"

lemma FromMillis_Millis:
  assumes "0 \<le> t" and "t < 2 ^ 63"
  shows "FromMillis (Millis t) = t - t mod 1000000"
proof -
  have u: "uint (of_int t :: 64 word) = t"
    using assms by (simp add: uint_word_of_int)
  have "uint ((of_int t :: 64 word) div 1000000) = t div 1000000"
    by (simp add: uint_div u)
  then have e: "(of_int t :: 64 word) div 1000000 = of_int (t div 1000000)"
    by (metis word_of_int_uint)
  define k where "k = t div 1000000 * 1000000"
  from e have w: "(of_int t :: 64 word) div 1000000 * 1000000 = of_int k"
    by (simp add: k_def)
  have "k \<le> t" and "0 \<le> k" using assms(1) by (simp_all add: k_def)
  with assms(2) have "- (2 ^ 63) \<le> k" and "k < 2 ^ 63" by simp_all
  then have "sint (of_int k :: 64 word) = k"
    by (simp only: signed_of_int) (simp add: signed_take_bit_int_eq_self)
  moreover have "k = t - t mod 1000000"
    by (simp add: k_def minus_mod_eq_div_mult)
  ultimately show ?thesis
    by (simp only: FromMillis_def Millis_def UnixNano_def Unix_def w)
qed

section \<open>The transfer records and their store (cmd/tredd/server.go)\<close>

text \<open>
  \<^verbatim>\<open>serverRecord\<close> embeds \<^verbatim>\<open>tredd.ParseResult\<close>, whose declaration is not among the
  sources; its fields and their types are those server.go reads and writes.
\<close>

record serverRecord =
  Amount :: int64
  AssetID :: bytes
  Anchor1 :: bytes
  Anchor2 :: bytes
  ClearRoot :: bytes
  CipherRoot :: bytes
  RevealDeadline :: time
  RefundDeadline :: time
  Buyer :: bytes
  Seller :: bytes
  Key :: bytes
  OutputID :: bytes
  transferID :: byte32

text \<open>
  The bbolt database as this program uses it: a root bucket, in it the bucket
  \<^verbatim>\<open>records\<close>, in it one bucket for each transfer ID, which maps field names to byte
  strings. \<open>None\<close> is a bucket that does not exist. A transaction of \<^verbatim>\<open>db.Update\<close>
  whose function returns an error leaves the database as it was.
\<close>

type_synonym bucket = "string \<Rightarrow> bytes option"
type_synonym records = "(bytes \<times> bucket) list"
type_synonym db = "records option option"

definition MaxValueSize :: nat where
  "MaxValueSize = 2 ^ 31 - 2"

text \<open>
  \<^verbatim>\<open>Bucket.Put\<close> fails on a value longer than \<^verbatim>\<open>MaxValueSize\<close> (the keys here are
  short constants); \<^verbatim>\<open>Bucket.Get\<close> returns nil, the empty slice, for a missing key.
\<close>

definition Put :: "bucket \<Rightarrow> string \<Rightarrow> bytes \<Rightarrow> bucket option" where
  "Put bu k v = (if MaxValueSize < length v then None else Some (bu(k \<mapsto> v)))"

definition Get :: "bucket \<Rightarrow> string \<Rightarrow> bytes" where
  "Get bu k = (case bu k of None \<Rightarrow> [] | Some v \<Rightarrow> v)"

text \<open>
  The \<^verbatim>\<open>Put\<close> calls of \<^verbatim>\<open>storeRecord\<close>, in the order of the source: each entry is the
  key, the value and the message that wraps a failure; the first failure returns.
\<close>

fun puts :: "bucket \<Rightarrow> (string \<times> bytes \<times> string) list \<Rightarrow> string + bucket" where
  "puts bu [] = Inr bu"
| "puts bu ((k, v, msg) # kvs) =
     (case Put bu k v of None \<Rightarrow> Inl msg | Some bu' \<Rightarrow> puts bu' kvs)"

definition storeRecord :: "db \<Rightarrow> serverRecord \<Rightarrow> string + db" where
  "storeRecord d rec =
     (let root = (case d of None \<Rightarrow> None | Some r \<Rightarrow> r);
          rs = (case root of None \<Rightarrow> [] | Some rs \<Rightarrow> rs);
          tid = Rep_byte32 (transferID rec);
          bu = (case map_of rs tid of None \<Rightarrow> Map.empty | Some b \<Rightarrow> b)
      in case puts bu
           [(''amount'', PutVarint (Amount rec), ''storing amount''),
            (''assetID'', AssetID rec, ''storing assetID''),
            (''anchor1'', Anchor1 rec, ''storing anchor1''),
            (''anchor2'', Anchor2 rec, ''storing anchor2''),
            (''clearRoot'', ClearRoot rec, ''storing clearRoot''),
            (''cipherRoot'', CipherRoot rec, ''storing cipherRoot''),
            (''revealDeadlineMS'', PutUvarint (Millis (RevealDeadline rec)),
               ''storing reveal deadline''),
            (''refundDeadlineMS'', PutUvarint (Millis (RefundDeadline rec)),
               ''storing refund deadline''),
            (''buyer'', Buyer rec, ''storing buyer''),
            (''seller'', Seller rec, ''storing seller''),
            (''key'', Key rec, ''storing key''),
            (''outputID'', OutputID rec, ''storing outputID'')] of
        Inl msg \<Rightarrow> Inl msg
      | Inr bu' \<Rightarrow> Inr (Some (Some (AList.update tid bu' rs))))"

datatype get_err =
  NoRootBucket
  | NoRecordsBucket
  | NoRecordBucket bytes
  | CannotParseAmount bytes
  | CannotParseRevealDeadline bytes
  | CannotParseRefundDeadline bytes

text \<open>\<^verbatim>\<open>copy(rec.transferID[:], transferID)\<close> into the zeroed array.\<close>

definition copy32 :: "bytes \<Rightarrow> byte32" where
  "copy32 bs = Abs_byte32 (take 32 (bs @ replicate 32 0))"

text \<open>
  \<^verbatim>\<open>getRecord\<close> reads seven of the stored fields; the anchors, the buyer, the seller and
  the output ID stay nil.
\<close>

definition getRecord :: "db \<Rightarrow> bytes \<Rightarrow> get_err + serverRecord" where
  "getRecord d tid =
     (case d of
        None \<Rightarrow> Inl NoRootBucket
      | Some None \<Rightarrow> Inl NoRecordsBucket
      | Some (Some rs) \<Rightarrow>
          (case map_of rs tid of
             None \<Rightarrow> Inl (NoRecordBucket tid)
           | Some bu \<Rightarrow>
               (case Varint (Get bu ''amount'') of
                  (amount, n) \<Rightarrow>
                    if n < 1 then Inl (CannotParseAmount tid)
                    else
                      (case Uvarint (Get bu ''revealDeadlineMS'') of
                         (revealDeadlineMS, n) \<Rightarrow>
                           if n < 1 then Inl (CannotParseRevealDeadline tid)
                           else
                             (case Uvarint (Get bu ''refundDeadlineMS'') of
                                (refundDeadlineMS, n) \<Rightarrow>
                                  if n < 1 then Inl (CannotParseRefundDeadline tid)
                                  else
                                    Inr \<lparr>Amount = amount,
                                         AssetID = Get bu ''assetID'',
                                         Anchor1 = [], Anchor2 = [],
                                         ClearRoot = Get bu ''clearRoot'',
                                         CipherRoot = Get bu ''cipherRoot'',
                                         RevealDeadline = FromMillis revealDeadlineMS,
                                         RefundDeadline = FromMillis refundDeadlineMS,
                                         Buyer = [], Seller = [],
                                         Key = Get bu ''key'',
                                         OutputID = [],
                                         transferID = copy32 tid\<rparr>)))))"

lemma copy32_Rep: "copy32 (Rep_byte32 x) = x"
  using Rep_byte32 [of x] by (simp add: copy32_def Rep_byte32_inverse)

lemma puts_Inr:
  "puts bu kvs = Inr bu' \<Longrightarrow> bu' = fold (\<lambda>(k, v, msg) b. b(k \<mapsto> v)) kvs bu"
  by (induction bu kvs rule: puts.induct) (auto simp: Put_def split: if_splits)

lemma puts_succeeds:
  "\<forall>(k, v, msg) \<in> set kvs. length v \<le> MaxValueSize \<Longrightarrow> \<exists>bu'. puts bu kvs = Inr bu'"
  by (induction bu kvs rule: puts.induct) (auto simp: Put_def)

lemma length_PutVarint: "length (PutVarint x) \<le> MaxVarintLen64"
  by (simp add: PutVarint_def Let_def length_PutUvarint)

lemma read_stored:
  assumes "storeRecord d rec = Inr d'"
  shows "getRecord d' (Rep_byte32 (transferID rec)) =
    Inr \<lparr>Amount = Amount rec, AssetID = AssetID rec, Anchor1 = [], Anchor2 = [],
         ClearRoot = ClearRoot rec, CipherRoot = CipherRoot rec,
         RevealDeadline = FromMillis (Millis (RevealDeadline rec)),
         RefundDeadline = FromMillis (Millis (RefundDeadline rec)),
         Buyer = [], Seller = [], Key = Key rec, OutputID = [],
         transferID = transferID rec\<rparr>"
proof -
  define rs where "rs = (case (case d of None \<Rightarrow> None | Some r \<Rightarrow> r) of None \<Rightarrow> [] | Some rs \<Rightarrow> rs)"
  define tid where "tid = Rep_byte32 (transferID rec)"
  define bu where "bu = (case map_of rs tid of None \<Rightarrow> Map.empty | Some b \<Rightarrow> b)"
  from assms obtain bu' where
    P: "puts bu
           [(''amount'', PutVarint (Amount rec), ''storing amount''),
            (''assetID'', AssetID rec, ''storing assetID''),
            (''anchor1'', Anchor1 rec, ''storing anchor1''),
            (''anchor2'', Anchor2 rec, ''storing anchor2''),
            (''clearRoot'', ClearRoot rec, ''storing clearRoot''),
            (''cipherRoot'', CipherRoot rec, ''storing cipherRoot''),
            (''revealDeadlineMS'', PutUvarint (Millis (RevealDeadline rec)),
               ''storing reveal deadline''),
            (''refundDeadlineMS'', PutUvarint (Millis (RefundDeadline rec)),
               ''storing refund deadline''),
            (''buyer'', Buyer rec, ''storing buyer''),
            (''seller'', Seller rec, ''storing seller''),
            (''key'', Key rec, ''storing key''),
            (''outputID'', OutputID rec, ''storing outputID'')] = Inr bu'"
    and d': "d' = Some (Some (AList.update tid bu' rs))"
    by (auto simp: storeRecord_def Let_def rs_def tid_def bu_def split: sum.splits)
  from puts_Inr [OF P] have G:
    "Get bu' ''amount'' = PutVarint (Amount rec)"
    "Get bu' ''assetID'' = AssetID rec"
    "Get bu' ''clearRoot'' = ClearRoot rec"
    "Get bu' ''cipherRoot'' = CipherRoot rec"
    "Get bu' ''revealDeadlineMS'' = PutUvarint (Millis (RevealDeadline rec))"
    "Get bu' ''refundDeadlineMS'' = PutUvarint (Millis (RefundDeadline rec))"
    "Get bu' ''key'' = Key rec"
    by (simp_all add: Get_def)
  have M: "map_of (AList.update tid bu' rs) tid = Some bu'"
    by (simp add: update_conv')
  have pos: "\<And>v. PutUvarint v \<noteq> []" "PutVarint (Amount rec) \<noteq> []"
    using length_PutUvarint_pos by (simp_all add: PutVarint_def Let_def)
  show ?thesis
    unfolding getRecord_def d' tid_def [symmetric]
    by (simp add: M G Varint_PutVarint Uvarint_PutUvarint pos)
      (simp add: tid_def copy32_Rep)
qed


text \<open>\<^verbatim>\<open>t.Truncate(time.Millisecond)\<close>: \<open>t\<close> rounded down to a whole millisecond.\<close>

definition truncate_ms :: "time \<Rightarrow> time" where
  "truncate_ms t = t - t mod 1000000"

lemma storeRecord_succeeds:
  assumes "length (AssetID rec) \<le> MaxValueSize" "length (Anchor1 rec) \<le> MaxValueSize"
    "length (Anchor2 rec) \<le> MaxValueSize" "length (ClearRoot rec) \<le> MaxValueSize"
    "length (CipherRoot rec) \<le> MaxValueSize" "length (Buyer rec) \<le> MaxValueSize"
    "length (Seller rec) \<le> MaxValueSize" "length (Key rec) \<le> MaxValueSize"
    "length (OutputID rec) \<le> MaxValueSize"
  shows "\<exists>d'. storeRecord d rec = Inr d'"
proof -
  have "MaxVarintLen64 \<le> MaxValueSize"
    by (simp add: MaxValueSize_def MaxVarintLen64_def)
  then have v: "\<And>x. length (PutUvarint x) \<le> MaxValueSize"
    "length (PutVarint (Amount rec)) \<le> MaxValueSize"
    using length_PutUvarint length_PutVarint [of "Amount rec"] le_trans by blast+
  show ?thesis
    unfolding storeRecord_def Let_def
    using assms v by (simp add: Put_def not_less)
qed

lemma FromMillis_Millis_minus_1: "FromMillis (Millis (- 1)) = - 551616"
  by (simp add: FromMillis_def Millis_def UnixNano_def Unix_def)


text \<open>Store a record and read it back under its transfer ID.\<close>

definition store_then_get :: "db \<Rightarrow> serverRecord \<Rightarrow> serverRecord option" where
  "store_then_get d rec =
     (case storeRecord d rec of
        Inl msg \<Rightarrow> None
      | Inr d' \<Rightarrow>
          (case getRecord d' (Rep_byte32 (transferID rec)) of
             Inl e \<Rightarrow> None
           | Inr rec' \<Rightarrow> Some rec'))"

text \<open>
  C10, as stated: every record written by \<^verbatim>\<open>storeRecord\<close> reads back with its deadlines
  truncated to the millisecond. It fails for a deadline before the Unix epoch: the
  record with the reveal deadline one nanosecond before the epoch reads back with the
  deadline 551616 ns before the epoch, which is neither the stored instant nor its
  truncation (1 ms before the epoch). \<^verbatim>\<open>bc.Millis\<close> divides the instant as a \<^verbatim>\<open>uint64\<close>.
\<close>

theorem store_then_get_pre_epoch_counterexample:
  "map_option RevealDeadline
     (store_then_get None
        \<lparr>Amount = 1, AssetID = [], Anchor1 = [], Anchor2 = [], ClearRoot = [], CipherRoot = [],
         RevealDeadline = - 1, RefundDeadline = 0, Buyer = [], Seller = [], Key = [],
         OutputID = [], transferID = Abs_byte32 (replicate 32 0)\<rparr>) = Some (- 551616) \<and>
   truncate_ms (- 1) = - 1000000"
proof -
  define R where "R =
        \<lparr>Amount = 1, AssetID = [], Anchor1 = [], Anchor2 = [], ClearRoot = [], CipherRoot = [],
         RevealDeadline = - 1, RefundDeadline = 0, Buyer = [], Seller = [], Key = [],
         OutputID = [], transferID = Abs_byte32 (replicate 32 0)\<rparr>"
  have "\<exists>d'. storeRecord None R = Inr d'"
    by (rule storeRecord_succeeds) (simp_all add: R_def)
  then obtain d' where S: "storeRecord None R = Inr d'" ..
  from read_stored [OF S] have "map_option RevealDeadline (store_then_get None R) =
      Some (FromMillis (Millis (- 1)))"
    by (simp add: store_then_get_def S) (simp add: R_def)
  then show ?thesis
    by (simp add: FromMillis_Millis_minus_1 truncate_ms_def R_def)
qed

text \<open>
  C10, amended. For every record that \<^verbatim>\<open>storeRecord\<close> writes and whose deadlines lie
  from the Unix epoch up to (not including) \<open>2 ^ 63\<close> ns after it, \<^verbatim>\<open>getRecord\<close> with the
  same transfer ID returns a record with the same amount, asset ID, clear root, cipher
  root and key, and with both deadlines truncated to the millisecond.
\<close>

theorem getRecord_storeRecord:
  assumes "storeRecord d rec = Inr d'"
    and "0 \<le> RevealDeadline rec" and "RevealDeadline rec < 2 ^ 63"
    and "0 \<le> RefundDeadline rec" and "RefundDeadline rec < 2 ^ 63"
  shows "\<exists>rec'. getRecord d' (Rep_byte32 (transferID rec)) = Inr rec' \<and>
    Amount rec' = Amount rec \<and> AssetID rec' = AssetID rec \<and>
    ClearRoot rec' = ClearRoot rec \<and> CipherRoot rec' = CipherRoot rec \<and>
    Key rec' = Key rec \<and>
    RevealDeadline rec' = truncate_ms (RevealDeadline rec) \<and>
    RefundDeadline rec' = truncate_ms (RefundDeadline rec)"
  using read_stored [OF assms(1)] FromMillis_Millis [OF assms(2,3)] FromMillis_Millis [OF assms(4,5)]
  by (simp add: truncate_ms_def)

theorem getRecord_storeRecord_witness:
  "\<exists>d'. storeRecord None
        \<lparr>Amount = 5, AssetID = [1], Anchor1 = [], Anchor2 = [], ClearRoot = [2], CipherRoot = [3],
         RevealDeadline = 1600000000123456789, RefundDeadline = 1600003600000000000,
         Buyer = [], Seller = [4], Key = [7], OutputID = [],
         transferID = Abs_byte32 (replicate 32 9)\<rparr> = Inr d' \<and>
     (\<exists>rec'. getRecord d' (replicate 32 9) = Inr rec' \<and>
        Amount rec' = 5 \<and> AssetID rec' = [1] \<and> ClearRoot rec' = [2] \<and> CipherRoot rec' = [3] \<and>
        Key rec' = [7] \<and> RevealDeadline rec' = 1600000000123000000 \<and>
        RefundDeadline rec' = 1600003600000000000)"
proof -
  define R where "R =
        \<lparr>Amount = 5, AssetID = [1], Anchor1 = [], Anchor2 = [], ClearRoot = [2], CipherRoot = [3],
         RevealDeadline = 1600000000123456789, RefundDeadline = 1600003600000000000,
         Buyer = [], Seller = [4], Key = [7], OutputID = [],
         transferID = Abs_byte32 (replicate 32 9)\<rparr>"
  have "\<exists>d'. storeRecord None R = Inr d'"
    by (rule storeRecord_succeeds) (simp_all add: R_def MaxValueSize_def)
  then obtain d' where S: "storeRecord None R = Inr d'" ..
  have tid: "Rep_byte32 (transferID R) = replicate 32 9"
    by (simp add: R_def Abs_byte32_inverse)
  from getRecord_storeRecord [OF S] tid
  have "\<exists>rec'. getRecord d' (replicate 32 9) = Inr rec' \<and>
        Amount rec' = 5 \<and> AssetID rec' = [1] \<and> ClearRoot rec' = [2] \<and> CipherRoot rec' = [3] \<and>
        Key rec' = [7] \<and> RevealDeadline rec' = 1600000000123000000 \<and>
        RefundDeadline rec' = 1600003600000000000"
    by (simp add: R_def truncate_ms_def)
  with S show ?thesis unfolding R_def by blast
qed

section \<open>Startup: replaying the stored records\<close>






















section \<open>strconv, encoding/hex and time.Sub\<close>

text \<open>A decimal digit, as \<^verbatim>\<open>strconv.ParseUint\<close> reads it in base 10.\<close>

definition digit :: "char \<Rightarrow> nat option" where
  "digit c =
     (let n = (of_char c :: nat) in if 48 \<le> n \<and> n \<le> 57 then Some (n - 48) else None)"

text \<open>
  The loop of \<^verbatim>\<open>strconv.ParseUint(s, 10, 64)\<close>: a character that is no digit is a syntax
  error, a value past \<open>2 ^ 64 - 1\<close> a range error; both return a non-nil error.
\<close>

fun ParseUint_loop :: "nat \<Rightarrow> string \<Rightarrow> nat option" where
  "ParseUint_loop n [] = Some n"
| "ParseUint_loop n (c # cs) =
     (case digit c of
        None \<Rightarrow> None
      | Some d \<Rightarrow> if n * 10 + d < 2 ^ 64 then ParseUint_loop (n * 10 + d) cs else None)"

definition ParseUint :: "string \<Rightarrow> uint64 option" where
  "ParseUint s = (if s = [] then None else map_option of_nat (ParseUint_loop 0 s))"

text \<open>
  \<^verbatim>\<open>strconv.ParseInt(s, 10, 64)\<close>: an optional sign, then \<^verbatim>\<open>ParseUint\<close>, then the range
  check against \<open>2 ^ 63\<close>.
\<close>

definition ParseInt :: "string \<Rightarrow> int64 option" where
  "ParseInt s =
     (case s of
        [] \<Rightarrow> None
      | c # cs \<Rightarrow>
          (let neg = (c = CHR ''-'');
               t = (if c = CHR ''+'' \<or> c = CHR ''-'' then cs else s)
           in case ParseUint t of
                None \<Rightarrow> None
              | Some un \<Rightarrow>
                  if \<not> neg \<and> 2 ^ 63 \<le> unat un then None
                  else if neg \<and> 2 ^ 63 < unat un then None
                  else Some (if neg then - un else un)))"

text \<open>\<^verbatim>\<open>hex.DecodeString\<close>: \<open>None\<close> on a character that is no hex digit or on an odd length.\<close>

definition fromHexChar :: "char \<Rightarrow> byte option" where
  "fromHexChar c =
     (let n = (of_char c :: nat) in
      if 48 \<le> n \<and> n \<le> 57 then Some (of_nat (n - 48))
      else if 97 \<le> n \<and> n \<le> 102 then Some (of_nat (n - 97 + 10))
      else if 65 \<le> n \<and> n \<le> 70 then Some (of_nat (n - 65 + 10))
      else None)"

fun DecodeString :: "string \<Rightarrow> bytes option" where
  "DecodeString [] = Some []"
| "DecodeString [c] = None"
| "DecodeString (c # c' # cs) =
     (case (fromHexChar c, fromHexChar c') of
        (Some a, Some b) \<Rightarrow> map_option ((#) (push_bit 4 a OR b)) (DecodeString cs)
      | _ \<Rightarrow> None)"

text \<open>
  \<^verbatim>\<open>t.Sub(u)\<close>: the difference as a \<^verbatim>\<open>Duration\<close>, saturated at the least and the greatest
  \<^verbatim>\<open>int64\<close>. \<^verbatim>\<open>time.Until(t)\<close> is \<^verbatim>\<open>t.Sub(time.Now())\<close>.
\<close>

definition Sub :: "time \<Rightarrow> time \<Rightarrow> int" where
  "Sub t u =
     (let d = t - u in
      if d < - (2 ^ 63) then - (2 ^ 63) else if 2 ^ 63 - 1 < d then 2 ^ 63 - 1 else d)"

definition minRevealDur :: int where
  "minRevealDur = 10 * 60 * 1000000000"

definition maxRefundDur :: int where
  "maxRefundDur = 3600 * 1000000000"

text \<open>
  A deadline of a request is a number of milliseconds since the epoch (the spec,
  section 6): \<open>instant ms\<close> is that instant, in nanoseconds. \<^verbatim>\<open>bc.FromMillis\<close> multiplies in
  \<^verbatim>\<open>int64\<close>, so it gives this instant only below \<open>2 ^ 63\<close> ns and wraps around above.
  \<open>deadline_in_range\<close> holds of a form value that is malformed or below that bound.
\<close>

definition instant :: "uint64 \<Rightarrow> time" where
  "instant ms = uint ms * 1000000"

definition deadline_in_range :: "string \<Rightarrow> bool" where
  "deadline_in_range s = (case ParseUint s of None \<Rightarrow> True | Some ms \<Rightarrow> instant ms < 2 ^ 63)"

lemma FromMillis_instant:
  assumes "instant ms < 2 ^ 63"
  shows "FromMillis ms = instant ms"
proof -
  define k where "k = uint ms * 1000000"
  have "ms = of_int (uint ms)" by simp
  then have "ms * 1000000 = of_int (uint ms) * (1000000 :: 64 word)" by simp
  also have "\<dots> = of_int k" by (simp add: k_def)
  finally have w: "ms * 1000000 = (of_int k :: 64 word)" .
  have "0 \<le> k" by (simp add: k_def)
  moreover have "k < 2 ^ 63" using assms by (simp add: k_def instant_def)
  ultimately have "- (2 ^ 63) \<le> k" and "k < 2 ^ 63" by simp_all
  then have "sint (of_int k :: 64 word) = k"
    by (simp only: signed_of_int) (simp add: signed_take_bit_int_eq_self)
  then show ?thesis
    by (simp only: FromMillis_def Unix_def w) (simp add: instant_def k_def)
qed

lemma Sub_less_minRevealDur: "(Sub t u < minRevealDur) = (t - u < minRevealDur)"
  unfolding Sub_def minRevealDur_def Let_def by (cases "t - u < - (2 ^ 63)"; cases "2 ^ 63 - 1 < t - u"; simp)

lemma maxRefundDur_less_Sub: "(maxRefundDur < Sub t u) = (maxRefundDur < t - u)"
  unfolding Sub_def maxRefundDur_def Let_def by (cases "t - u < - (2 ^ 63)"; cases "2 ^ 63 - 1 < t - u"; simp)

section \<open>The request handler (server.serve)\<close>

text \<open>The form values of a request; a missing one is the empty string.\<close>

record request =
  clearroot :: string
  amount :: string
  assetid :: string
  revealdeadline :: string
  refunddeadline :: string

text \<open>
  What the handler meets outside its arguments. \<open>content_open\<close> is
  \<^verbatim>\<open>os.Open(path.Join(clearHashPath(s.dir, clearRoot)))\<close> (\<^verbatim>\<open>clearHashPath\<close> is not among the
  sources) and \<open>content_type\<close> the \<^verbatim>\<open>ioutil.ReadFile\<close> of the file \<^verbatim>\<open>content-type\<close> beside
  it, both as functions of the clear root; \<open>now\<close> is \<^verbatim>\<open>time.Now()\<close>; \<open>rand_key\<close> and
  \<open>rand_transferID\<close> are the two calls of \<^verbatim>\<open>rand.Read\<close> (\<open>None\<close>: an error); the
  remaining fields say whether the temporary file can be created, how many writes to it
  succeed, and whether closing, reopening and copying it to the response succeed.
\<close>

datatype file_open = NotExist | OpenFailed | Opened reader

record env =
  now :: time
  content_open :: "bytes \<Rightarrow> file_open"
  content_type :: "bytes \<Rightarrow> bytes option"
  rand_key :: "byte32 option"
  rand_transferID :: "byte32 option"
  tmp_create :: bool
  tmp_writes :: "nat option"
  tmp_close :: bool
  tmp_reopen :: bool
  copy_ok :: bool
  s_seller :: bytes

text \<open>
  The response: \<^verbatim>\<open>httpErrf\<close> with its status code (400 is \<^verbatim>\<open>http.StatusBadRequest\<close>, 404
  \<^verbatim>\<open>http.StatusNotFound\<close>, 500 \<^verbatim>\<open>http.StatusInternalServerError\<close>), or the transfer ID header, the content
  type and the body copied from the temporary file.
\<close>

datatype response = HttpError nat | Delivered bytes bytes bytes

text \<open>\<^verbatim>\<open>checkPrice\<close>: \<open>True\<close> is the nil error.\<close>

definition checkPrice :: "int64 \<Rightarrow> bytes \<Rightarrow> bytes \<Rightarrow> bool" where
  "checkPrice amt assetID clearRoot = (0 < sint amt)"

text \<open>
  \<^verbatim>\<open>(s *server) serve(w, req)\<close>, in the order of the source: the response and the
  database after the call.
\<close>

definition server_serve ::
  "sha256 \<Rightarrow> merkle_root \<Rightarrow> env \<Rightarrow> db \<Rightarrow> request \<Rightarrow> response \<times> db" where
  "server_serve H mroot e d req =
     (case DecodeString (clearroot req) of
        None \<Rightarrow> (HttpError 400, d)
      | Some clearRoot \<Rightarrow>
     (case content_open e clearRoot of
        NotExist \<Rightarrow> (HttpError 404, d)
      | OpenFailed \<Rightarrow> (HttpError 500, d)
      | Opened f \<Rightarrow>
     (case content_type e clearRoot of
        None \<Rightarrow> (HttpError 500, d)
      | Some contentType \<Rightarrow>
     (case ParseInt (amount req) of
        None \<Rightarrow> (HttpError 400, d)
      | Some amt \<Rightarrow>
     if sint amt < 1 then (HttpError 400, d) else
     (case DecodeString (assetid req) of
        None \<Rightarrow> (HttpError 400, d)
      | Some assetID \<Rightarrow>
     if \<not> checkPrice amt assetID clearRoot then (HttpError 400, d) else
     (case ParseUint (revealdeadline req) of
        None \<Rightarrow> (HttpError 400, d)
      | Some revealDeadlineMS \<Rightarrow>
     if Sub (FromMillis revealDeadlineMS) (now e) < minRevealDur
     then (HttpError 400, d) else
     (case ParseUint (refunddeadline req) of
        None \<Rightarrow> (HttpError 400, d)
      | Some refundDeadlineMS \<Rightarrow>
     if maxRefundDur < Sub (FromMillis refundDeadlineMS) (FromMillis revealDeadlineMS)
     then (HttpError 400, d) else
     (case rand_key e of
        None \<Rightarrow> (HttpError 500, d)
      | Some key \<Rightarrow>
     (case rand_transferID e of
        None \<Rightarrow> (HttpError 500, d)
      | Some tid \<Rightarrow>
     if \<not> tmp_create e then (HttpError 500, d) else
     (case Serve H mroot \<lparr>wout = [], wleft = tmp_writes e\<rparr> f key of
        (tmpfile, Inl err) \<Rightarrow> (HttpError 500, d)
      | (tmpfile, Inr cipherRoot) \<Rightarrow>
     if \<not> tmp_close e then (HttpError 500, d) else
     (case storeRecord d
             \<lparr>Amount = amt, AssetID = assetID, Anchor1 = [], Anchor2 = [],
              ClearRoot = clearRoot, CipherRoot = cipherRoot,
              RevealDeadline = FromMillis revealDeadlineMS,
              RefundDeadline = FromMillis refundDeadlineMS,
              Buyer = [], Seller = s_seller e, Key = Rep_byte32 key, OutputID = [],
              transferID = tid\<rparr> of
        Inl msg \<Rightarrow> (HttpError 500, d)
      | Inr d' \<Rightarrow>
     if \<not> tmp_reopen e then (HttpError 500, d')
     else if \<not> copy_ok e then (HttpError 500, d')
     else (Delivered (Rep_byte32 tid) contentType (wout tmpfile), d'))))))))))))"


text \<open>
  What the handler's checks give in its own terms: the deadlines as \<^verbatim>\<open>bc.FromMillis\<close>
  reads them, and the durations as \<^verbatim>\<open>time.Sub\<close> saturates them.
\<close>

lemma server_serve_accepted_wrapped:
  assumes "server_serve H mroot e d req = (Delivered tid ct body, d')"
  shows "\<exists>rv rf. ParseUint (revealdeadline req) = Some rv \<and>
    ParseUint (refunddeadline req) = Some rf \<and>
    minRevealDur \<le> Sub (FromMillis rv) (now e) \<and>
    Sub (FromMillis rf) (FromMillis rv) \<le> maxRefundDur"
  using assms unfolding server_serve_def
  by (auto split: option.splits file_open.splits if_splits prod.splits sum.splits)

text \<open>
  C2, amended. For every request the handler accepts (it answers with the stream) and
  whose two deadlines lie less than \<open>2 ^ 63\<close> nanoseconds after the epoch (at most
  9223372036854 ms), both deadlines parse, the reveal deadline lies at least
  \<^verbatim>\<open>minRevealDur\<close> (10 minutes) after now, and the refund deadline lies at most
  \<^verbatim>\<open>maxRefundDur\<close> (1 hour) after the reveal deadline. The handler sets no lower bound on
  the refund deadline. The deadlines are the instants the request names, \<open>instant\<close>, and
  the differences are exact.
\<close>

theorem server_serve_accepted_deadlines:
  assumes "server_serve H mroot e d req = (Delivered tid ct body, d')"
    and "deadline_in_range (revealdeadline req)"
    and "deadline_in_range (refunddeadline req)"
  shows "\<exists>rv rf. ParseUint (revealdeadline req) = Some rv \<and>
    ParseUint (refunddeadline req) = Some rf \<and>
    minRevealDur \<le> instant rv - now e \<and>
    instant rf - instant rv \<le> maxRefundDur"
proof -
  from server_serve_accepted_wrapped [OF assms(1)]
  obtain rv rf where p: "ParseUint (revealdeadline req) = Some rv"
      "ParseUint (refunddeadline req) = Some rf"
      "minRevealDur \<le> Sub (FromMillis rv) (now e)"
      "Sub (FromMillis rf) (FromMillis rv) \<le> maxRefundDur"
    by blast
  from assms(2) p(1) have "instant rv < 2 ^ 63" by (simp add: deadline_in_range_def)
  then have rv: "FromMillis rv = instant rv" by (rule FromMillis_instant)
  from assms(3) p(2) have "instant rf < 2 ^ 63" by (simp add: deadline_in_range_def)
  then have rf: "FromMillis rf = instant rf" by (rule FromMillis_instant)
  from p(3) have "\<not> Sub (instant rv) (now e) < minRevealDur" by (simp add: rv)
  then have a: "minRevealDur \<le> instant rv - now e"
    by (simp add: Sub_less_minRevealDur)
  from p(4) have "\<not> maxRefundDur < Sub (instant rf) (instant rv)" by (simp add: rv rf)
  then have b: "instant rf - instant rv \<le> maxRefundDur"
    by (simp add: maxRefundDur_less_Sub)
  from p(1,2) a b show ?thesis by blast
qed

text \<open>
  A run of the handler: the empty file stored under the clear root \<open>00\<close>, now at
  1600000000 s after the epoch, the reveal deadline 20 minutes later, any refund
  deadline that passes the check against \<^verbatim>\<open>maxRefundDur\<close>, and a Merkle root of at most
  32 bytes.
\<close>

lemma server_serve_example:
  assumes e: "content_open e [0] = Opened \<lparr>rdata = [], rsched = []\<rparr>"
    "content_type e [0] = Some []" "now e = 1600000000000000000"
    "rand_key e = Some key" "rand_transferID e = Some tid" "tmp_create e" "tmp_close e"
    "tmp_reopen e" "copy_ok e" "s_seller e = []"
    and r: "ParseUint refund = Some rf"
      "Sub (FromMillis rf) 1600001200000000000 \<le> maxRefundDur"
  shows "\<exists>d'. server_serve H (\<lambda>leaves. take 32 (mroot leaves)) e None
      \<lparr>clearroot = ''00'', amount = ''1'', assetid = [],
       revealdeadline = ''1600001200000'', refunddeadline = refund\<rparr> =
    (Delivered (Rep_byte32 tid) [] [], d')"
proof -
  have D: "DecodeString ''00'' = Some [0]" by (simp add: fromHexChar_def)
  have A: "ParseInt ''1'' = Some 1" by (simp add: ParseInt_def ParseUint_def digit_def)
  have V: "ParseUint ''1600001200000'' = Some 1600001200000"
    by (simp add: ParseUint_def digit_def)
  have T: "FromMillis 1600001200000 = 1600001200000000000"
    by (simp add: FromMillis_def Unix_def)
  have M: "\<not> maxRefundDur < Sub (FromMillis rf) 1600001200000000000"
    using r(2) by simp
  have N: "\<not> Sub 1600001200000000000 1600000000000000000 < minRevealDur"
    by (simp add: Sub_def minRevealDur_def)
  have S: "Serve H (\<lambda>leaves. take 32 (mroot leaves)) \<lparr>wout = [], wleft = tmp_writes e\<rparr> \<lparr>rdata = [], rsched = []\<rparr> key =
      (\<lparr>wout = [], wleft = tmp_writes e\<rparr>, Inr (take 32 (mroot [])))"
    by (rule Serve_empty_file) (simp_all add: faultless_def)
  have "\<exists>d'. storeRecord None
             \<lparr>Amount = 1, AssetID = [], Anchor1 = [], Anchor2 = [],
              ClearRoot = [0], CipherRoot = take 32 (mroot []),
              RevealDeadline = 1600001200000000000,
              RefundDeadline = FromMillis rf,
              Buyer = [], Seller = [], Key = Rep_byte32 key, OutputID = [],
              transferID = tid\<rparr> = Inr d'"
    using Rep_byte32 [of key]
    by (intro storeRecord_succeeds) (simp_all add: MaxValueSize_def)
  then obtain d' where R: "storeRecord None
             \<lparr>Amount = 1, AssetID = [], Anchor1 = [], Anchor2 = [],
              ClearRoot = [0], CipherRoot = take 32 (mroot []),
              RevealDeadline = 1600001200000000000,
              RefundDeadline = FromMillis rf,
              Buyer = [], Seller = [], Key = Rep_byte32 key, OutputID = [],
              transferID = tid\<rparr> = Inr d'" ..
  show ?thesis
    unfolding server_serve_def
    by (rule exI [of _ d'])
      (simp add: fromHexChar_def A V T S R M N e r(1) checkPrice_def)
qed

text \<open>
  C2, as stated: every accepted request has its reveal deadline strictly before its
  refund deadline. It fails: the handler accepts the request whose refund deadline
  (1600000000000 ms) lies 20 minutes before its reveal deadline (1600001200000 ms).
\<close>

theorem server_serve_deadline_order_counterexample:
  "\<forall>H mroot.
     (\<exists>d'. server_serve H (\<lambda>leaves. take 32 (mroot leaves))
        \<lparr>now = 1600000000000000000,
         content_open = (\<lambda>cr. if cr = [0] then Opened \<lparr>rdata = [], rsched = []\<rparr> else NotExist),
         content_type = (\<lambda>cr. Some []),
         rand_key = Some (Abs_byte32 (replicate 32 1)),
         rand_transferID = Some (Abs_byte32 (replicate 32 2)),
         tmp_create = True, tmp_writes = None, tmp_close = True, tmp_reopen = True,
         copy_ok = True, s_seller = []\<rparr>
        None
        \<lparr>clearroot = ''00'', amount = ''1'', assetid = [],
         revealdeadline = ''1600001200000'', refunddeadline = ''1600000000000''\<rparr> =
       (Delivered (replicate 32 2) [] [], d')) \<and>
     ParseUint ''1600001200000'' = Some 1600001200000 \<and>
     ParseUint ''1600000000000'' = Some 1600000000000 \<and>
     FromMillis 1600001200000 = 1600001200000000000 \<and>
     FromMillis 1600000000000 = 1600000000000000000 \<and>
     \<not> FromMillis 1600001200000 < FromMillis 1600000000000"
proof (intro allI conjI)
  fix H :: sha256 and mroot :: merkle_root
  have F: "ParseUint ''1600000000000'' = Some 1600000000000"
    by (simp add: ParseUint_def digit_def)
  have T: "FromMillis 1600000000000 = 1600000000000000000"
    by (simp add: FromMillis_def Unix_def)
  have "Sub (FromMillis 1600000000000) 1600001200000000000 \<le> maxRefundDur"
    by (simp add: T Sub_def maxRefundDur_def)
  from server_serve_example [where e = "\<lparr>now = 1600000000000000000,
         content_open = (\<lambda>cr. if cr = [0] then Opened \<lparr>rdata = [], rsched = []\<rparr> else NotExist),
         content_type = (\<lambda>cr. Some []),
         rand_key = Some (Abs_byte32 (replicate 32 1)),
         rand_transferID = Some (Abs_byte32 (replicate 32 2)),
         tmp_create = True, tmp_writes = None, tmp_close = True, tmp_reopen = True,
         copy_ok = True, s_seller = []\<rparr>"
      and key = "Abs_byte32 (replicate 32 1)" and tid = "Abs_byte32 (replicate 32 2)"
      and H = H and mroot = mroot, OF _ _ _ _ _ _ _ _ _ _ F this]
  show "\<exists>d'. server_serve H (\<lambda>leaves. take 32 (mroot leaves))
        \<lparr>now = 1600000000000000000,
         content_open = (\<lambda>cr. if cr = [0] then Opened \<lparr>rdata = [], rsched = []\<rparr> else NotExist),
         content_type = (\<lambda>cr. Some []),
         rand_key = Some (Abs_byte32 (replicate 32 1)),
         rand_transferID = Some (Abs_byte32 (replicate 32 2)),
         tmp_create = True, tmp_writes = None, tmp_close = True, tmp_reopen = True,
         copy_ok = True, s_seller = []\<rparr>
        None
        \<lparr>clearroot = ''00'', amount = ''1'', assetid = [],
         revealdeadline = ''1600001200000'', refunddeadline = ''1600000000000''\<rparr> =
       (Delivered (replicate 32 2) [] [], d')"
    by (simp add: Abs_byte32_inverse)
qed (simp_all add: ParseUint_def digit_def FromMillis_def Unix_def)

text \<open>
  Above the bound \<^verbatim>\<open>bc.FromMillis\<close> wraps around, and the handler's check no longer
  speaks of the instant the request names: the refund deadline 18446744073709551615 ms
  is read as 1 ms before the epoch and the request is accepted.
\<close>

lemma server_serve_refund_wraps:
  "\<exists>d'. server_serve H (\<lambda>leaves. take 32 (mroot leaves))
        \<lparr>now = 1600000000000000000,
         content_open = (\<lambda>cr. if cr = [0] then Opened \<lparr>rdata = [], rsched = []\<rparr> else NotExist),
         content_type = (\<lambda>cr. Some []),
         rand_key = Some (Abs_byte32 (replicate 32 1)),
         rand_transferID = Some (Abs_byte32 (replicate 32 2)),
         tmp_create = True, tmp_writes = None, tmp_close = True, tmp_reopen = True,
         copy_ok = True, s_seller = []\<rparr>
        None
        \<lparr>clearroot = ''00'', amount = ''1'', assetid = [],
         revealdeadline = ''1600001200000'', refunddeadline = ''18446744073709551615''\<rparr> =
       (Delivered (replicate 32 2) [] [], d')"
proof -
  have F: "ParseUint ''18446744073709551615'' = Some 18446744073709551615"
    by (simp add: ParseUint_def digit_def)
  have T: "FromMillis 18446744073709551615 = - 1000000"
    by (simp add: FromMillis_def Unix_def)
  have "Sub (FromMillis 18446744073709551615) 1600001200000000000 \<le> maxRefundDur"
    by (simp add: T Sub_def maxRefundDur_def)
  from server_serve_example [where e = "\<lparr>now = 1600000000000000000,
         content_open = (\<lambda>cr. if cr = [0] then Opened \<lparr>rdata = [], rsched = []\<rparr> else NotExist),
         content_type = (\<lambda>cr. Some []),
         rand_key = Some (Abs_byte32 (replicate 32 1)),
         rand_transferID = Some (Abs_byte32 (replicate 32 2)),
         tmp_create = True, tmp_writes = None, tmp_close = True, tmp_reopen = True,
         copy_ok = True, s_seller = []\<rparr>"
      and key = "Abs_byte32 (replicate 32 1)" and tid = "Abs_byte32 (replicate 32 2)"
      and H = H and mroot = mroot, OF _ _ _ _ _ _ _ _ _ _ F this]
  show ?thesis
    by (simp add: Abs_byte32_inverse)
qed

theorem server_serve_accepted_deadlines_witness:
  "\<forall>H mroot.
     \<exists>d'. server_serve H (\<lambda>leaves. take 32 (mroot leaves))
        \<lparr>now = 1600000000000000000,
         content_open = (\<lambda>cr. if cr = [0] then Opened \<lparr>rdata = [], rsched = []\<rparr> else NotExist),
         content_type = (\<lambda>cr. Some []),
         rand_key = Some (Abs_byte32 (replicate 32 1)),
         rand_transferID = Some (Abs_byte32 (replicate 32 2)),
         tmp_create = True, tmp_writes = None, tmp_close = True, tmp_reopen = True,
         copy_ok = True, s_seller = []\<rparr>
        None
        \<lparr>clearroot = ''00'', amount = ''1'', assetid = [],
         revealdeadline = ''1600001200000'', refunddeadline = ''1600003000000''\<rparr> =
       (Delivered (replicate 32 2) [] [], d') \<and>
     deadline_in_range ''1600001200000'' \<and> deadline_in_range ''1600003000000'' \<and>
     minRevealDur \<le> instant 1600001200000 - 1600000000000000000 \<and>
     instant 1600003000000 - instant 1600001200000 \<le> maxRefundDur"
proof (intro allI)
  fix H :: sha256 and mroot :: merkle_root
  have F: "ParseUint ''1600003000000'' = Some 1600003000000"
    by (simp add: ParseUint_def digit_def)
  have V: "ParseUint ''1600001200000'' = Some 1600001200000"
    by (simp add: ParseUint_def digit_def)
  have T: "FromMillis 1600003000000 = 1600003000000000000"
    by (simp add: FromMillis_def Unix_def)
  have "Sub (FromMillis 1600003000000) 1600001200000000000 \<le> maxRefundDur"
    by (simp add: T Sub_def maxRefundDur_def)
  from server_serve_example [where e = "\<lparr>now = 1600000000000000000,
         content_open = (\<lambda>cr. if cr = [0] then Opened \<lparr>rdata = [], rsched = []\<rparr> else NotExist),
         content_type = (\<lambda>cr. Some []),
         rand_key = Some (Abs_byte32 (replicate 32 1)),
         rand_transferID = Some (Abs_byte32 (replicate 32 2)),
         tmp_create = True, tmp_writes = None, tmp_close = True, tmp_reopen = True,
         copy_ok = True, s_seller = []\<rparr>"
      and key = "Abs_byte32 (replicate 32 1)" and tid = "Abs_byte32 (replicate 32 2)"
      and H = H and mroot = mroot, OF _ _ _ _ _ _ _ _ _ _ F this]
  obtain d' where R: "server_serve H (\<lambda>leaves. take 32 (mroot leaves))
        \<lparr>now = 1600000000000000000,
         content_open = (\<lambda>cr. if cr = [0] then Opened \<lparr>rdata = [], rsched = []\<rparr> else NotExist),
         content_type = (\<lambda>cr. Some []),
         rand_key = Some (Abs_byte32 (replicate 32 1)),
         rand_transferID = Some (Abs_byte32 (replicate 32 2)),
         tmp_create = True, tmp_writes = None, tmp_close = True, tmp_reopen = True,
         copy_ok = True, s_seller = []\<rparr>
        None
        \<lparr>clearroot = ''00'', amount = ''1'', assetid = [],
         revealdeadline = ''1600001200000'', refunddeadline = ''1600003000000''\<rparr> =
       (Delivered (replicate 32 2) [] [], d')"
    by (auto simp: Abs_byte32_inverse)
  have I: "deadline_in_range ''1600001200000''" "deadline_in_range ''1600003000000''"
    by (simp_all add: deadline_in_range_def V F instant_def)
  from server_serve_accepted_deadlines [OF R] V F I
  have "minRevealDur \<le> instant 1600001200000 - 1600000000000000000 \<and>
     instant 1600003000000 - instant 1600001200000 \<le> maxRefundDur"
    by simp
  with R I show "\<exists>d'. server_serve H (\<lambda>leaves. take 32 (mroot leaves))
        \<lparr>now = 1600000000000000000,
         content_open = (\<lambda>cr. if cr = [0] then Opened \<lparr>rdata = [], rsched = []\<rparr> else NotExist),
         content_type = (\<lambda>cr. Some []),
         rand_key = Some (Abs_byte32 (replicate 32 1)),
         rand_transferID = Some (Abs_byte32 (replicate 32 2)),
         tmp_create = True, tmp_writes = None, tmp_close = True, tmp_reopen = True,
         copy_ok = True, s_seller = []\<rparr>
        None
        \<lparr>clearroot = ''00'', amount = ''1'', assetid = [],
         revealdeadline = ''1600001200000'', refunddeadline = ''1600003000000''\<rparr> =
       (Delivered (replicate 32 2) [] [], d') \<and>
     deadline_in_range ''1600001200000'' \<and> deadline_in_range ''1600003000000'' \<and>
     minRevealDur \<le> instant 1600001200000 - 1600000000000000000 \<and>
     instant 1600003000000 - instant 1600001200000 \<le> maxRefundDur"
    by blast
qed

text \<open>
  The responses 404 and 400 in the handler's own terms: the deadlines as \<^verbatim>\<open>bc.FromMillis\<close>
  reads them, and the durations as \<^verbatim>\<open>time.Sub\<close> saturates them.
\<close>

lemma server_serve_rejections_wrapped:
  "(fst (server_serve H mroot e d req) = HttpError 404) =
     (\<exists>cr. DecodeString (clearroot req) = Some cr \<and> content_open e cr = NotExist) \<and>
   (fst (server_serve H mroot e d req) = HttpError 400) =
     (DecodeString (clearroot req) = None \<or>
      (\<exists>cr f ct. DecodeString (clearroot req) = Some cr \<and> content_open e cr = Opened f \<and>
         content_type e cr = Some ct \<and>
         (ParseInt (amount req) = None \<or>
          (\<exists>a. ParseInt (amount req) = Some a \<and> sint a < 1) \<or>
          DecodeString (assetid req) = None \<or>
          ParseUint (revealdeadline req) = None \<or>
          (\<exists>rv. ParseUint (revealdeadline req) = Some rv \<and>
             (Sub (FromMillis rv) (now e) < minRevealDur \<or>
              ParseUint (refunddeadline req) = None \<or>
              (\<exists>rf. ParseUint (refunddeadline req) = Some rf \<and>
                 maxRefundDur < Sub (FromMillis rf) (FromMillis rv))))))) \<and>
   (fst (server_serve H mroot e d req) = HttpError 400 \<or>
    fst (server_serve H mroot e d req) = HttpError 404 \<longrightarrow>
      snd (server_serve H mroot e d req) = d)"
proof (intro conjI)
  show "(fst (server_serve H mroot e d req) = HttpError 404) =
     (\<exists>cr. DecodeString (clearroot req) = Some cr \<and> content_open e cr = NotExist)"
    unfolding server_serve_def
    by (auto split: option.splits file_open.splits if_splits prod.splits sum.splits)
  show "fst (server_serve H mroot e d req) = HttpError 400 \<or>
    fst (server_serve H mroot e d req) = HttpError 404 \<longrightarrow>
      snd (server_serve H mroot e d req) = d"
    unfolding server_serve_def
    by (auto split: option.splits file_open.splits if_splits prod.splits sum.splits)
  show "(fst (server_serve H mroot e d req) = HttpError 400) =
     (DecodeString (clearroot req) = None \<or>
      (\<exists>cr f ct. DecodeString (clearroot req) = Some cr \<and> content_open e cr = Opened f \<and>
         content_type e cr = Some ct \<and>
         (ParseInt (amount req) = None \<or>
          (\<exists>a. ParseInt (amount req) = Some a \<and> sint a < 1) \<or>
          DecodeString (assetid req) = None \<or>
          ParseUint (revealdeadline req) = None \<or>
          (\<exists>rv. ParseUint (revealdeadline req) = Some rv \<and>
             (Sub (FromMillis rv) (now e) < minRevealDur \<or>
              ParseUint (refunddeadline req) = None \<or>
              (\<exists>rf. ParseUint (refunddeadline req) = Some rf \<and>
                 maxRefundDur < Sub (FromMillis rf) (FromMillis rv)))))))"
    unfolding server_serve_def checkPrice_def
    by (auto split: option.splits file_open.splits if_splits prod.splits sum.splits)
qed

text \<open>
  C5, amended. For every request whose deadlines, where they are well-formed, lie less
  than \<open>2 ^ 63\<close> nanoseconds after the epoch (at most 9223372036854 ms): the handler
  answers 404 exactly when the clear root is well-formed hex and the file it names does
  not exist. It answers 400 exactly when the clear root is malformed hex, or the file and
  its content type could be read and the amount is malformed or less than 1, or the asset
  ID is malformed hex, or the reveal deadline is malformed or less than \<^verbatim>\<open>minRevealDur\<close>
  (10 minutes) from now, or the refund deadline is malformed or more than \<^verbatim>\<open>maxRefundDur\<close>
  (1 hour) after the reveal deadline. In both cases the response is the error alone (no
  stream) and the database is unchanged. The deadlines are the instants the request
  names, \<open>instant\<close>, and the differences are exact.
\<close>

theorem server_serve_rejections:
  assumes "deadline_in_range (revealdeadline req)"
    and "deadline_in_range (refunddeadline req)"
  shows "(fst (server_serve H mroot e d req) = HttpError 404) =
     (\<exists>cr. DecodeString (clearroot req) = Some cr \<and> content_open e cr = NotExist) \<and>
   (fst (server_serve H mroot e d req) = HttpError 400) =
     (DecodeString (clearroot req) = None \<or>
      (\<exists>cr f ct. DecodeString (clearroot req) = Some cr \<and> content_open e cr = Opened f \<and>
         content_type e cr = Some ct \<and>
         (ParseInt (amount req) = None \<or>
          (\<exists>a. ParseInt (amount req) = Some a \<and> sint a < 1) \<or>
          DecodeString (assetid req) = None \<or>
          ParseUint (revealdeadline req) = None \<or>
          (\<exists>rv. ParseUint (revealdeadline req) = Some rv \<and>
             (instant rv - now e < minRevealDur \<or>
              ParseUint (refunddeadline req) = None \<or>
              (\<exists>rf. ParseUint (refunddeadline req) = Some rf \<and>
                 maxRefundDur < instant rf - instant rv)))))) \<and>
   (fst (server_serve H mroot e d req) = HttpError 400 \<or>
    fst (server_serve H mroot e d req) = HttpError 404 \<longrightarrow>
      snd (server_serve H mroot e d req) = d)"
proof -
  note w = server_serve_rejections_wrapped [of H mroot e d req]
  have rv: "FromMillis rv = instant rv" if "ParseUint (revealdeadline req) = Some rv" for rv
    using assms(1) that by (intro FromMillis_instant) (simp add: deadline_in_range_def)
  have rf: "FromMillis rf = instant rf" if "ParseUint (refunddeadline req) = Some rf" for rf
    using assms(2) that by (intro FromMillis_instant) (simp add: deadline_in_range_def)
  have t: "(\<exists>rv. ParseUint (revealdeadline req) = Some rv \<and>
             (Sub (FromMillis rv) (now e) < minRevealDur \<or>
              ParseUint (refunddeadline req) = None \<or>
              (\<exists>rf. ParseUint (refunddeadline req) = Some rf \<and>
                 maxRefundDur < Sub (FromMillis rf) (FromMillis rv)))) =
           (\<exists>rv. ParseUint (revealdeadline req) = Some rv \<and>
             (instant rv - now e < minRevealDur \<or>
              ParseUint (refunddeadline req) = None \<or>
              (\<exists>rf. ParseUint (refunddeadline req) = Some rf \<and>
                 maxRefundDur < instant rf - instant rv)))"
  proof (cases "ParseUint (revealdeadline req)")
    case None
    then show ?thesis by simp
  next
    case (Some v)
    note v = rv [OF Some]
    show ?thesis
    proof (cases "ParseUint (refunddeadline req)")
      case None
      with Some show ?thesis by (simp add: v Sub_less_minRevealDur)
    next
      case f: (Some u)
      note u = rf [OF f]
      from Some f show ?thesis
        by (simp add: v u Sub_less_minRevealDur maxRefundDur_less_Sub)
    qed
  qed
  from w show ?thesis unfolding t .
qed

text \<open>
  C5, as stated: 400 precisely when the amount is non-positive, the reveal deadline too
  soon or the refund window too long. It fails in both directions: a request with the
  amount 0 for a file that does not exist is answered 404, since the file is looked up
  before the amount is read; and a request with a positive amount and deadlines within
  the limits, but a malformed asset ID, is answered 400.
\<close>

theorem server_serve_rejections_counterexample:
  "\<forall>H mroot.
     fst (server_serve H mroot
        \<lparr>now = 1600000000000000000,
         content_open = (\<lambda>cr. NotExist),
         content_type = (\<lambda>cr. None),
         rand_key = Some (Abs_byte32 (replicate 32 1)),
         rand_transferID = Some (Abs_byte32 (replicate 32 2)),
         tmp_create = True, tmp_writes = None, tmp_close = True, tmp_reopen = True,
         copy_ok = True, s_seller = []\<rparr>
        None
        \<lparr>clearroot = ''00'', amount = ''0'', assetid = [],
         revealdeadline = ''1600001200000'', refunddeadline = ''1600003000000''\<rparr>) =
       HttpError 404 \<and>
     map_option sint (ParseInt ''0'') = Some 0 \<and>
     fst (server_serve H mroot
        \<lparr>now = 1600000000000000000,
         content_open = (\<lambda>cr. if cr = [0] then Opened \<lparr>rdata = [], rsched = []\<rparr> else NotExist),
         content_type = (\<lambda>cr. Some []),
         rand_key = Some (Abs_byte32 (replicate 32 1)),
         rand_transferID = Some (Abs_byte32 (replicate 32 2)),
         tmp_create = True, tmp_writes = None, tmp_close = True, tmp_reopen = True,
         copy_ok = True, s_seller = []\<rparr>
        None
        \<lparr>clearroot = ''00'', amount = ''1'', assetid = ''zz'',
         revealdeadline = ''1600001200000'', refunddeadline = ''1600003000000''\<rparr>) =
       HttpError 400 \<and>
     map_option sint (ParseInt ''1'') = Some 1 \<and>
     ParseUint ''1600001200000'' = Some 1600001200000 \<and>
     ParseUint ''1600003000000'' = Some 1600003000000 \<and>
     \<not> Sub (FromMillis 1600001200000) 1600000000000000000 < minRevealDur \<and>
     \<not> maxRefundDur < Sub (FromMillis 1600003000000) (FromMillis 1600001200000) \<and>
     \<not> instant 1600001200000 - 1600000000000000000 < minRevealDur \<and>
     \<not> maxRefundDur < instant 1600003000000 - instant 1600001200000"
  by (simp add: server_serve_def fromHexChar_def ParseInt_def ParseUint_def digit_def
      FromMillis_def Unix_def Sub_def minRevealDur_def maxRefundDur_def instant_def)

text \<open>
  Above the bound \<^verbatim>\<open>bc.FromMillis\<close> wraps around here too: the reveal deadline
  9223372036855 ms, centuries after now, is read as an instant before the epoch and the
  request is answered 400.
\<close>

lemma server_serve_reveal_wraps:
  "fst (server_serve H mroot
        \<lparr>now = 1600000000000000000,
         content_open = (\<lambda>cr. if cr = [0] then Opened \<lparr>rdata = [], rsched = []\<rparr> else NotExist),
         content_type = (\<lambda>cr. Some []),
         rand_key = Some (Abs_byte32 (replicate 32 1)),
         rand_transferID = Some (Abs_byte32 (replicate 32 2)),
         tmp_create = True, tmp_writes = None, tmp_close = True, tmp_reopen = True,
         copy_ok = True, s_seller = []\<rparr>
        None
        \<lparr>clearroot = ''00'', amount = ''1'', assetid = [],
         revealdeadline = ''9223372036855'', refunddeadline = ''9223372036855''\<rparr>) =
       HttpError 400 \<and>
   ParseUint ''9223372036855'' = Some 9223372036855 \<and>
   FromMillis 9223372036855 = - 9223372036854551616 \<and>
   \<not> instant 9223372036855 - 1600000000000000000 < minRevealDur"
  by (simp add: server_serve_def fromHexChar_def ParseInt_def ParseUint_def digit_def
      FromMillis_def Unix_def Sub_def minRevealDur_def maxRefundDur_def instant_def
      checkPrice_def)

theorem server_serve_rejections_witness:
  "\<forall>H mroot.
     server_serve H mroot
        \<lparr>now = 1600000000000000000,
         content_open = (\<lambda>cr. NotExist),
         content_type = (\<lambda>cr. None),
         rand_key = Some (Abs_byte32 (replicate 32 1)),
         rand_transferID = Some (Abs_byte32 (replicate 32 2)),
         tmp_create = True, tmp_writes = None, tmp_close = True, tmp_reopen = True,
         copy_ok = True, s_seller = []\<rparr>
        None
        \<lparr>clearroot = ''00'', amount = ''0'', assetid = [],
         revealdeadline = ''1600001200000'', refunddeadline = ''1600003000000''\<rparr> =
       (HttpError 404, None) \<and>
     deadline_in_range ''1600001200000'' \<and> deadline_in_range ''1600003000000''"
proof (intro allI)
  fix H :: sha256 and mroot :: merkle_root
  define e where "e =
        \<lparr>now = 1600000000000000000,
         content_open = (\<lambda>cr :: bytes. NotExist),
         content_type = (\<lambda>cr :: bytes. None :: bytes option),
         rand_key = Some (Abs_byte32 (replicate 32 1)),
         rand_transferID = Some (Abs_byte32 (replicate 32 2)),
         tmp_create = True, tmp_writes = None, tmp_close = True, tmp_reopen = True,
         copy_ok = True, s_seller = []\<rparr>"
  define req where "req =
        \<lparr>clearroot = ''00'', amount = ''0'', assetid = [],
         revealdeadline = ''1600001200000'', refunddeadline = ''1600003000000''\<rparr>"
  have D: "DecodeString (clearroot req) = Some [0]"
    by (simp add: req_def fromHexChar_def)
  have I: "deadline_in_range ''1600001200000''" "deadline_in_range ''1600003000000''"
    by (simp_all add: deadline_in_range_def ParseUint_def digit_def instant_def)
  then have "deadline_in_range (revealdeadline req)" "deadline_in_range (refunddeadline req)"
    by (simp_all add: req_def)
  from server_serve_rejections [OF this, of H mroot e None] D
  have "fst (server_serve H mroot e None req) = HttpError 404"
    and "snd (server_serve H mroot e None req) = None"
    by (simp_all add: e_def)
  then have "server_serve H mroot e None req = (HttpError 404, None)"
    by (simp add: prod_eq_iff)
  with I show "server_serve H mroot
        \<lparr>now = 1600000000000000000,
         content_open = (\<lambda>cr. NotExist),
         content_type = (\<lambda>cr. None),
         rand_key = Some (Abs_byte32 (replicate 32 1)),
         rand_transferID = Some (Abs_byte32 (replicate 32 2)),
         tmp_create = True, tmp_writes = None, tmp_close = True, tmp_reopen = True,
         copy_ok = True, s_seller = []\<rparr>
        None
        \<lparr>clearroot = ''00'', amount = ''0'', assetid = [],
         revealdeadline = ''1600001200000'', refunddeadline = ''1600003000000''\<rparr> =
       (HttpError 404, None) \<and>
     deadline_in_range ''1600001200000'' \<and> deadline_in_range ''1600003000000''"
    by (simp add: e_def req_def)
qed

section \<open>RevealKey (tx.go)\<close>

text \<open>
  The ledger as \<^verbatim>\<open>RevealKey\<close> meets it. \<open>onchain\<close> holds the parameters a deployed contract
  was created with. \<^verbatim>\<open>bind.TransactOpts\<close> carries the sender and \<^verbatim>\<open>Value\<close>, the funds sent
  along with a transaction (nil is 0). \<^verbatim>\<open>NewTredd\<close> and \<^verbatim>\<open>Reveal\<close> are the generated
  contract bindings, which are not among the sources, and \<^verbatim>\<open>bind.WaitMined\<close> belongs to
  go-ethereum: the client gives each as a function, \<open>None\<close> or \<open>False\<close> for an error.
  \<open>contract_at\<close> is what reading the contract at an address would return.
\<close>

type_synonym address = bytes

record onchain =
  oc_clearRoot :: byte32
  oc_cipherRoot :: byte32
  oc_revealDeadline :: time
  oc_refundDeadline :: time

record TransactOpts =
  From :: address
  Value :: nat

record ('tx, 'receipt) client =
  contract_at :: "address \<Rightarrow> onchain option"
  NewTredd :: "address \<Rightarrow> bool"
  Reveal :: "address \<Rightarrow> TransactOpts \<Rightarrow> byte32 \<Rightarrow> 'tx option"
  WaitMined :: "'tx \<Rightarrow> 'receipt option"

datatype reveal_err = InstantiatingDeployedContract | InvokingReveal | WaitingForReceipt

text \<open>
  \<^verbatim>\<open>RevealKey(ctx, client, seller, contractAddr, key, wantClearRoot, wantCipherRoot,
  wantRevealDeadline, wantRefundDeadline)\<close>. The source marks both the check of the
  on-chain values against the wanted ones and the collateral as TODO.
\<close>

definition RevealKey ::
  "('tx, 'receipt) client \<Rightarrow> TransactOpts \<Rightarrow> address \<Rightarrow> byte32 \<Rightarrow> byte32 \<Rightarrow> byte32 \<Rightarrow>
   time \<Rightarrow> time \<Rightarrow> reveal_err + 'receipt" where
  "RevealKey cl seller contractAddr key wantClearRoot wantCipherRoot
     wantRevealDeadline wantRefundDeadline =
     (if \<not> NewTredd cl contractAddr then Inl InstantiatingDeployedContract
      else
        (case Reveal cl contractAddr seller key of
           None \<Rightarrow> Inl InvokingReveal
         | Some tx \<Rightarrow>
             (case WaitMined cl tx of
                None \<Rightarrow> Inl WaitingForReceipt
              | Some receipt \<Rightarrow> Inr receipt)))"

text \<open>
  C3. The claim: \<^verbatim>\<open>RevealKey\<close> submits the reveal only after it has verified that the
  deployed contract's parameters match the wanted ones, and supplies the collateral
  with the call. The code does neither: its result does not depend on the wanted
  parameters nor on the contract's, and the transaction options go to \<^verbatim>\<open>Reveal\<close> as the
  caller passed them. Here the contract at address \<open>7\<close> was deployed with roots of 32
  zero bytes, the caller wants roots of 32 bytes \<open>1\<close> and sends no funds, and the
  reveal is submitted and mined all the same.
\<close>

theorem RevealKey_unchecked:
  "RevealKey
     \<lparr>contract_at = (\<lambda>a. Some \<lparr>oc_clearRoot = Abs_byte32 (replicate 32 0),
                                  oc_cipherRoot = Abs_byte32 (replicate 32 0),
                                  oc_revealDeadline = 100, oc_refundDeadline = 200\<rparr>),
      NewTredd = (\<lambda>a. True),
      Reveal = (\<lambda>a opts k. Some (a, opts, k)),
      WaitMined = Some\<rparr>
     \<lparr>From = [1], Value = 0\<rparr> [7] (Abs_byte32 (replicate 32 9))
     (Abs_byte32 (replicate 32 1)) (Abs_byte32 (replicate 32 1)) 100 200 =
   Inr ([7], \<lparr>From = [1], Value = 0\<rparr>, Abs_byte32 (replicate 32 9)) \<and>
   Abs_byte32 (replicate 32 1) \<noteq> Abs_byte32 (replicate 32 0) \<and>
   (\<forall>cl seller a k c1 c2 t1 t2 c1' c2' t1' t2' f.
      RevealKey cl seller a k c1 c2 t1 t2 =
      (RevealKey (cl\<lparr>contract_at := f\<rparr>) seller a k c1' c2' t1' t2'
        :: reveal_err + (address \<times> TransactOpts \<times> byte32)))"
  by (simp add: RevealKey_def Abs_byte32_inject split: option.splits)

end
